theory Spec2Isabelle
  imports Complex_Main "HOL-Library.Word" "HOL-Library.Multiset"
begin

unbundle bit_operations_syntax

section \<open>Pseudo-random source (src/utils/random.js)\<close>

text \<open>
  JavaScript numbers are modelled as follows. The 32-bit integer arithmetic of
  \<open>SeededRandom.next\<close> (\<open>| 0\<close>, \<open>>>>\<close>, \<open>^\<close>, \<open>Math.imul\<close>) is arithmetic on
  \<open>32 word\<close>. A draw is the quotient of an unsigned 32-bit value by \<open>2^32\<close>, which a
  double represents exactly, so a draw is a \<open>real\<close>. Seeds are integer-valued numbers
  (\<open>int\<close>); \<open>ToInt32\<close> is the conversion JavaScript applies to the operands of \<open>|\<close>.
\<close>

definition ToInt32 :: "int \<Rightarrow> 32 word" where
  "ToInt32 n = word_of_int n"

record SeededRandom =
  seed :: int
  rng_state :: int

definition SeededRandom_new :: "int \<Rightarrow> SeededRandom" where
  "SeededRandom_new s = \<lparr>seed = s, rng_state = s\<rparr>"

text \<open>
  The scrambling part of \<open>next()\<close>, applied to the state after it has been advanced:
  \<open>t = Math.imul(state ^ (state >>> 15), 1 | state);
    t = (t + Math.imul(t ^ (t >>> 7), 61 | t)) ^ t;
    (t ^ (t >>> 14)) >>> 0\<close>.
\<close>

definition mulberry_mix :: "32 word \<Rightarrow> 32 word" where
  "mulberry_mix st =
     (let t = (st XOR drop_bit 15 st) * (1 OR st);
          t2 = (t + (t XOR drop_bit 7 t) * (61 OR t)) XOR t
      in t2 XOR drop_bit 14 t2)"

definition SeededRandom_next :: "SeededRandom \<Rightarrow> real \<times> SeededRandom" where
  "SeededRandom_next r =
     (let st = ToInt32 (rng_state r) + 0x6D2B79F5
      in (real (unat (mulberry_mix st)) / 4294967296, r\<lparr>rng_state := sint st\<rparr>))"

definition SeededRandom_reset :: "SeededRandom \<Rightarrow> SeededRandom" where
  "SeededRandom_reset r = r\<lparr>rng_state := seed r\<rparr>"

definition SeededRandom_setSeed :: "int \<Rightarrow> SeededRandom \<Rightarrow> SeededRandom" where
  "SeededRandom_setSeed s r = r\<lparr>seed := s, rng_state := s\<rparr>"

text \<open>The outputs of the first \<open>n\<close> calls of \<open>next()\<close> on an instance.\<close>

fun draws :: "nat \<Rightarrow> SeededRandom \<Rightarrow> real list" where
  "draws 0 r = []"
| "draws (Suc n) r = (case SeededRandom_next r of (x, r') \<Rightarrow> x # draws n r')"

text \<open>
  The value that the call with index \<open>k\<close> (counting from 0) returns on an instance
  constructed with seed \<open>s\<close>, written as a function of seed and call index alone.
\<close>

definition output_at :: "int \<Rightarrow> nat \<Rightarrow> real" where
  "output_at s k =
     real (unat (mulberry_mix (ToInt32 s + of_nat (Suc k) * 0x6D2B79F5))) / 4294967296"

definition in_unit_interval :: "real \<Rightarrow> bool" where
  "in_unit_interval x = (0 \<le> x \<and> x < 1)"

section \<open>Random utilities and distributions (src/utils/random.js)\<close>

text \<open>
  Every utility takes the source as its last argument (\<open>rng = defaultRandom\<close>). A source
  is an object with a \<open>next()\<close> method and hidden state: here a transition function on a
  state type \<open>'g\<close>, so that each call returns the draw and the advanced state.
  \<open>Math.random\<close> and \<open>SeededRandom.next\<close> both return draws in the half-open unit
  interval; results that depend on this contract state it as a hypothesis. The utilities
  of \<open>Random\<close> and the scroll pattern are stated for sources whose draws are finite
  numbers (\<open>'g rng\<close>); the distributions take a source that may return any number, NaN
  and the infinities included (\<open>'g source\<close>, below).
\<close>

type_synonym 'g rng = "'g \<Rightarrow> real \<times> 'g"

definition Random_int :: "int \<Rightarrow> int \<Rightarrow> 'g rng \<Rightarrow> 'g \<Rightarrow> int \<times> 'g" where
  "Random_int mn mx nxt g =
     (case nxt g of (u, g') \<Rightarrow> (\<lfloor>u * real_of_int (mx - mn + 1)\<rfloor> + mn, g'))"

definition Random_float :: "real \<Rightarrow> real \<Rightarrow> 'g rng \<Rightarrow> 'g \<Rightarrow> real \<times> 'g" where
  "Random_float mn mx nxt g = (case nxt g of (u, g') \<Rightarrow> (u * (mx - mn) + mn, g'))"

definition Random_bool :: "real \<Rightarrow> 'g rng \<Rightarrow> 'g \<Rightarrow> bool \<times> 'g" where
  "Random_bool probability nxt g = (case nxt g of (u, g') \<Rightarrow> (u < probability, g'))"

text \<open>
  \<open>Random.shuffle\<close> (Fisher-Yates): \<open>for (i = length - 1; i > 0; i--)\<close> draws
  \<open>j = floor(next() * (i + 1))\<close> and swaps the entries \<open>i\<close> and \<open>j\<close>. The first
  argument of \<open>shuffle_loop\<close> is the current \<open>i\<close>. For a draw in the unit interval
  \<open>j\<close> is an index between 0 and \<open>i\<close>; a draw outside it would make JavaScript store
  \<open>undefined\<close>, which a list has no value for, so results about \<open>shuffle\<close> assume the
  contract of the source.
\<close>

fun shuffle_loop :: "nat \<Rightarrow> 'g rng \<Rightarrow> 'a list \<Rightarrow> 'g \<Rightarrow> 'a list \<times> 'g" where
  "shuffle_loop 0 nxt result g = (result, g)"
| "shuffle_loop (Suc i') nxt result g =
     (case nxt g of (u, g') \<Rightarrow>
        (let i = Suc i';
             j = nat \<lfloor>u * real (i + 1)\<rfloor>
         in shuffle_loop i' nxt (result[i := result ! j, j := result ! i]) g'))"

definition shuffle :: "'a list \<Rightarrow> 'g rng \<Rightarrow> 'g \<Rightarrow> 'a list \<times> 'g" where
  "shuffle array nxt g = shuffle_loop (length array - 1) nxt array g"

subsection \<open>JavaScript numbers\<close>

text \<open>
  The arguments and the result of the distributions are JavaScript numbers, which need not
  be finite: a \<open>number\<close> is NaN, an infinity or a finite value. A finite value is the real
  number that the double denotes, so rounding and overflow are not modelled and the two
  zeros are one value. The operators and the functions of \<open>Math\<close> follow ECMAScript on
  NaN and the infinities.
\<close>

datatype number = NaN | NegInfinity | Fin real | PosInfinity

text \<open>The relational operators \<open><\<close> and \<open>>\<close>: a comparison with NaN is false.\<close>

fun js_lt :: "number \<Rightarrow> number \<Rightarrow> bool" where
  "js_lt (Fin x) (Fin y) = (x < y)"
| "js_lt NegInfinity (Fin y) = True"
| "js_lt NegInfinity PosInfinity = True"
| "js_lt (Fin x) PosInfinity = True"
| "js_lt _ _ = False"

definition js_gt :: "number \<Rightarrow> number \<Rightarrow> bool" where
  "js_gt a b = js_lt b a"

text \<open>\<open>Math.max\<close> and \<open>Math.min\<close> of two arguments: NaN as soon as one argument is NaN.\<close>

definition Math_max :: "number \<Rightarrow> number \<Rightarrow> number" where
  "Math_max a b = (if a = NaN \<or> b = NaN then NaN else if js_lt a b then b else a)"

definition Math_min :: "number \<Rightarrow> number \<Rightarrow> number" where
  "Math_min a b = (if a = NaN \<or> b = NaN then NaN else if js_lt b a then b else a)"

text \<open>
  The operators \<open>*\<close> and \<open>+\<close>: the product of 0 and an infinity is NaN, and so is the
  sum of the two infinities.
\<close>

fun js_times :: "number \<Rightarrow> number \<Rightarrow> number" where
  "js_times NaN b = NaN"
| "js_times a NaN = NaN"
| "js_times (Fin x) (Fin y) = Fin (x * y)"
| "js_times (Fin x) PosInfinity = (if x = 0 then NaN else if 0 < x then PosInfinity else NegInfinity)"
| "js_times (Fin x) NegInfinity = (if x = 0 then NaN else if 0 < x then NegInfinity else PosInfinity)"
| "js_times PosInfinity (Fin y) = (if y = 0 then NaN else if 0 < y then PosInfinity else NegInfinity)"
| "js_times NegInfinity (Fin y) = (if y = 0 then NaN else if 0 < y then NegInfinity else PosInfinity)"
| "js_times PosInfinity PosInfinity = PosInfinity"
| "js_times NegInfinity NegInfinity = PosInfinity"
| "js_times PosInfinity NegInfinity = NegInfinity"
| "js_times NegInfinity PosInfinity = NegInfinity"

fun js_plus :: "number \<Rightarrow> number \<Rightarrow> number" where
  "js_plus NaN b = NaN"
| "js_plus a NaN = NaN"
| "js_plus (Fin x) (Fin y) = Fin (x + y)"
| "js_plus PosInfinity NegInfinity = NaN"
| "js_plus NegInfinity PosInfinity = NaN"
| "js_plus PosInfinity b = PosInfinity"
| "js_plus a PosInfinity = PosInfinity"
| "js_plus NegInfinity b = NegInfinity"
| "js_plus a NegInfinity = NegInfinity"

text \<open>
  \<open>Math.log\<close> is NaN below 0 and \<open>-Infinity\<close> at 0; \<open>Math.sqrt\<close> is NaN below 0;
  \<open>Math.cos\<close> is NaN at the infinities.
\<close>

fun Math_log :: "number \<Rightarrow> number" where
  "Math_log (Fin x) = (if x < 0 then NaN else if x = 0 then NegInfinity else Fin (ln x))"
| "Math_log PosInfinity = PosInfinity"
| "Math_log a = NaN"

fun Math_sqrt :: "number \<Rightarrow> number" where
  "Math_sqrt (Fin x) = (if x < 0 then NaN else Fin (sqrt x))"
| "Math_sqrt PosInfinity = PosInfinity"
| "Math_sqrt a = NaN"

fun Math_cos :: "number \<Rightarrow> number" where
  "Math_cos (Fin x) = Fin (cos x)"
| "Math_cos a = NaN"

definition Math_PI :: number where
  "Math_PI = Fin pi"

subsection \<open>Distribution.gaussian and Distribution.gaussianBounded\<close>

text \<open>A source for the distributions: \<open>next()\<close> may return any number.\<close>

type_synonym 'g source = "'g \<Rightarrow> number \<times> 'g"

text \<open>
  \<open>Distribution.gaussian\<close>: \<open>do { u1 = next(); u2 = next() } while (u1 === 0)\<close>, then the
  Box-Muller transform
  \<open>z = Math.sqrt(-2.0 * Math.log(u1)) * Math.cos(2.0 * Math.PI * u2); return z * stdDev + mean\<close>.
  The resampling loop has no bound, so it is a partial function: \<open>None\<close> is the run that
  never leaves the loop.
\<close>

partial_function (option) gaussian_draw ::
  "'g source \<Rightarrow> 'g \<Rightarrow> (number \<times> number \<times> 'g) option" where
  "gaussian_draw src g =
     (case src g of (u1, g1) \<Rightarrow>
        (case src g1 of (u2, g2) \<Rightarrow>
           if u1 = Fin 0 then gaussian_draw src g2 else Some (u1, u2, g2)))"

definition gaussian :: "number \<Rightarrow> number \<Rightarrow> 'g source \<Rightarrow> 'g \<Rightarrow> (number \<times> 'g) option" where
  "gaussian mean stdDev src g =
     (case gaussian_draw src g of
        None \<Rightarrow> None
      | Some (u1, u2, g') \<Rightarrow>
          (let z = js_times (Math_sqrt (js_times (Fin (- 2)) (Math_log u1)))
                            (Math_cos (js_times (js_times (Fin 2) Math_PI) u2))
           in Some (js_plus (js_times z stdDev) mean, g')))"

text \<open>
  \<open>Distribution.gaussianBounded\<close>:
  \<open>do { value = gaussian(..); attempts++ } while ((value < min || value > max) && attempts < 100);
    return Math.max(min, Math.min(max, value))\<close>.
  The last argument of the loop is \<open>attempts\<close> before the iteration. On a NaN sample
  both comparisons are false, so the loop ends and the clamp returns NaN.
\<close>

function gaussianBounded_loop ::
  "number \<Rightarrow> number \<Rightarrow> number \<Rightarrow> number \<Rightarrow> 'g source \<Rightarrow> 'g \<Rightarrow> nat \<Rightarrow> (number \<times> 'g) option" where
  "gaussianBounded_loop mean stdDev mn mx src g attempts =
     (case gaussian mean stdDev src g of
        None \<Rightarrow> None
      | Some (v, g') \<Rightarrow>
          if (js_lt v mn \<or> js_gt v mx) \<and> attempts + 1 < 100
          then gaussianBounded_loop mean stdDev mn mx src g' (attempts + 1)
          else Some (v, g'))"
  by pat_completeness auto
termination
  by (relation "measure (\<lambda>(mean, stdDev, mn, mx, src, g, attempts). 100 - attempts)") auto

declare gaussianBounded_loop.simps [simp del]

definition gaussianBounded ::
  "number \<Rightarrow> number \<Rightarrow> number \<Rightarrow> number \<Rightarrow> 'g source \<Rightarrow> 'g \<Rightarrow> (number \<times> 'g) option" where
  "gaussianBounded mean stdDev mn mx src g =
     (case gaussianBounded_loop mean stdDev mn mx src g 0 of
        None \<Rightarrow> None
      | Some (v, g') \<Rightarrow> Some (Math_max mn (Math_min mx v), g'))"

text \<open>
  What the results about \<open>gaussianBounded\<close> speak of: \<open>a <= b\<close> on numbers (false when an
  operand is NaN), a value in the closed range from \<open>min\<close> to \<open>max\<close>, a finite number, and
  a source all of whose draws are finite numbers in the half-open unit interval.
\<close>

definition js_le :: "number \<Rightarrow> number \<Rightarrow> bool" where
  "js_le a b = (a \<noteq> NaN \<and> b \<noteq> NaN \<and> \<not> js_lt b a)"

definition in_range :: "number \<Rightarrow> number \<Rightarrow> number \<Rightarrow> bool" where
  "in_range mn mx v = (js_le mn v \<and> js_le v mx)"

definition is_finite :: "number \<Rightarrow> bool" where
  "is_finite a = (case a of Fin x \<Rightarrow> True | _ \<Rightarrow> False)"

definition unit_draws :: "'g source \<Rightarrow> bool" where
  "unit_draws src = (\<forall>h. \<exists>u. fst (src h) = Fin u \<and> 0 \<le> u \<and> u < 1)"

text \<open>
  How far a source is advanced by \<open>n\<close> calls, and the draw that the call after them
  returns.
\<close>

definition advance :: "('g \<Rightarrow> 'a \<times> 'g) \<Rightarrow> nat \<Rightarrow> 'g \<Rightarrow> 'g" where
  "advance nxt n g = ((\<lambda>h. snd (nxt h)) ^^ n) g"



subsection \<open>Behavior.scrollPattern\<close>










definition unit_source :: "'g rng \<Rightarrow> bool" where
  "unit_source nxt = (\<forall>h. 0 \<le> fst (nxt h) \<and> fst (nxt h) < 1)"




section \<open>Errors\<close>

text \<open>
  A thrown JavaScript exception is a value: the kind of the error object and its
  \<open>message\<close>. A call that can throw returns \<open>error + 'a\<close>, with \<open>Inl\<close> for the throw.
\<close>

datatype error = Error string | TypeError string | SyntaxError string

fun message :: "error \<Rightarrow> string" where
  "message (Error m) = m"
| "message (TypeError m) = m"
| "message (SyntaxError m) = m"

section \<open>Sites manager (SitesManager.getSites)\<close>

text \<open>
  The loaded sites configuration. \<open>categories\<close> is the object mapping a category name
  to its array of URLs, kept as an association list in key order (\<open>Object.keys\<close>; the
  keys of an object are distinct);
  \<open>excludePatterns\<close> is the optional array of regular-expression sources.
\<close>

record sites_config =
  categories :: "(string \<times> string list) list"
  excludePatterns :: "string list option"

text \<open>
  The \<open>options\<close> argument of \<open>getSites\<close>. \<open>None\<close> stands for an absent property
  (or, for \<open>custom\<close> and \<open>exclude\<close>, one that is not an array).
\<close>

record getSites_options =
  custom :: "string list option"
  exclude :: "string list option"
  maxSites :: "int option"
  shuffle_option :: "bool option"

text \<open>
  \<open>String.prototype.toLowerCase\<close>. A character of a \<open>string\<close> is a code unit
  between 0 and 255: the capital letters among them are A to Z and, in the Latin-1 range,
  the codes 192 to 222 other than the multiplication sign 215; each lies 32 below its small
  letter. Strings with code units above 255 are outside the model.
\<close>

definition toLowerCase :: "string \<Rightarrow> string" where
  "toLowerCase s =
     map (\<lambda>c. if (65 \<le> (of_char c :: nat) \<and> (of_char c :: nat) \<le> 90)
                 \<or> (192 \<le> (of_char c :: nat) \<and> (of_char c :: nat) \<le> 222
                      \<and> (of_char c :: nat) \<noteq> 215)
              then char_of (of_char c + 32 :: nat) else c) s"

text \<open>
  \<open>[...new Set(sites)]\<close>: a Set keeps the first occurrence of each value, in insertion
  order. \<open>set_add_all seen xs\<close> adds the elements of \<open>xs\<close> to the set whose elements
  are \<open>seen\<close>, in order.
\<close>

fun set_add_all :: "'a list \<Rightarrow> 'a list \<Rightarrow> 'a list" where
  "set_add_all seen [] = seen"
| "set_add_all seen (x # xs) = set_add_all (if x \<in> set seen then seen else seen @ [x]) xs"

definition dedupe :: "'a list \<Rightarrow> 'a list" where
  "dedupe xs = set_add_all [] xs"

text \<open>
  \<open>excludePatterns.map(p => new RegExp(p, 'i'))\<close>. The regular-expression engine is a
  parameter: \<open>compile p\<close> is \<open>None\<close> when \<open>new RegExp(p, 'i')\<close> throws a SyntaxError,
  and otherwise the \<open>test\<close> predicate of the compiled pattern. The message of that
  SyntaxError is the engine's own (it goes on with the flags and a reason); the model keeps
  its beginning, and no result below depends on the text.
\<close>

fun compile_all :: "(string \<Rightarrow> (string \<Rightarrow> bool) option) \<Rightarrow> string list
                     \<Rightarrow> error + (string \<Rightarrow> bool) list" where
  "compile_all compile [] = Inr []"
| "compile_all compile (p # ps) =
     (case compile p of
        None \<Rightarrow> Inl (SyntaxError (''Invalid regular expression: /'' @ p @ ''/''))
      | Some t \<Rightarrow> (case compile_all compile ps of
                     Inl e \<Rightarrow> Inl e
                   | Inr ts \<Rightarrow> Inr (t # ts)))"

text \<open>
  \<open>getSites(categories, options)\<close> on the manager whose \<open>_sites\<close> field is the first
  argument of \<open>getSites\<close> below. The steps are those of the source, in its order: select
  the categories, collect their sites, add the custom sites, drop the excluded sites
  (compared in lower case), remove duplicates (\<open>collect_sites\<close>); apply the exclude
  patterns (\<open>apply_exclude_patterns\<close>); shuffle unless \<open>shuffle\<close> is \<open>false\<close> (with
  \<open>Math.random\<close>, the source \<open>nxt\<close>) and cut to \<open>maxSites\<close> when it is positive
  (\<open>shuffle_and_limit\<close>).
\<close>

definition collect_sites :: "sites_config \<Rightarrow> string list \<Rightarrow> getSites_options \<Rightarrow> string list" where
  "collect_sites cfg cats options =
     (let allCategories = map fst (categories cfg);
          selectedCategories =
            (if ''all'' \<in> set cats then allCategories
             else filter (\<lambda>c. c \<in> set allCategories) cats);
          sites0 = concat (map (\<lambda>c. case map_of (categories cfg) c of
                                        None \<Rightarrow> [] | Some l \<Rightarrow> l) selectedCategories);
          sites1 = (case custom options of None \<Rightarrow> sites0 | Some cs \<Rightarrow> sites0 @ cs);
          sites2 = (case exclude options of
                      None \<Rightarrow> sites1
                    | Some ex \<Rightarrow>
                        filter (\<lambda>s. toLowerCase s \<notin> set (map toLowerCase ex)) sites1)
      in dedupe sites2)"

definition apply_exclude_patterns ::
  "(string \<Rightarrow> (string \<Rightarrow> bool) option) \<Rightarrow> sites_config \<Rightarrow> string list
   \<Rightarrow> error + string list" where
  "apply_exclude_patterns compile cfg sites =
     (case excludePatterns cfg of
        None \<Rightarrow> Inr sites
      | Some ps \<Rightarrow>
          (case compile_all compile ps of
             Inl e \<Rightarrow> Inl e
           | Inr patterns \<Rightarrow>
               Inr (filter (\<lambda>site. \<not> list_ex (\<lambda>t. t site) patterns) sites)))"

definition shuffle_and_limit ::
  "getSites_options \<Rightarrow> 'g rng \<Rightarrow> 'g \<Rightarrow> string list \<Rightarrow> string list \<times> 'g" where
  "shuffle_and_limit options nxt g sites =
     (case (if shuffle_option options \<noteq> Some False
            then shuffle sites nxt g else (sites, g)) of
        (shuffled, g') \<Rightarrow>
          (case maxSites options of
             None \<Rightarrow> (shuffled, g')
           | Some n \<Rightarrow> if n \<noteq> 0 \<and> n > 0 then (take (nat n) shuffled, g')
                       else (shuffled, g')))"

definition getSites ::
  "sites_config option \<Rightarrow> string list \<Rightarrow> getSites_options
   \<Rightarrow> (string \<Rightarrow> (string \<Rightarrow> bool) option) \<Rightarrow> 'g rng \<Rightarrow> 'g
   \<Rightarrow> error + (string list \<times> 'g)" where
  "getSites sites_field cats options compile nxt g =
     (case sites_field of
        None \<Rightarrow> Inl (Error ''Sites not loaded. Call await Sites.load() first.'')
      | Some cfg \<Rightarrow>
          (case apply_exclude_patterns compile cfg (collect_sites cfg cats options) of
             Inl e \<Rightarrow> Inl e
           | Inr sites \<Rightarrow> Inr (shuffle_and_limit options nxt g sites)))"

section \<open>Browser controller: navigation with retry (BrowserController.goto)\<close>

text \<open>
  The loaded configuration (\<open>Config.get()\<close>), with the settings that the session
  reads. Times in \<open>timing\<close> are seconds, \<open>maxDuration\<close> and \<open>breakInterval\<close> minutes.
\<close>

record config =
  sites_categories :: "string list"
  sites_custom :: "string list"
  sites_exclude :: "string list"
  sites_maxSites :: int
  sites_shuffleSites :: bool
  behavior_searches :: bool
  behavior_searchCount :: int
  behavior_maxDepth :: int
  behavior_clickLinks :: bool
  session_maxPages :: int
  session_maxDuration :: real
  session_breakInterval :: real
  breakDuration_min :: int
  breakDuration_max :: int
  timing_minWait :: int
  timing_maxWait :: int

definition config_not_loaded :: error where
  "config_not_loaded = Error ''Configuration not loaded. Call await Config.load() first.''"

text \<open>
  The controller's \<open>page\<close> field is set by a successful \<open>launch()\<close> and cleared by
  \<open>close()\<close>. The events a controller emits during \<open>goto\<close> are returned in order.
\<close>

record BrowserController =
  page_open :: bool

datatype browser_event =
    HttpError string int
  | Navigated string int nat
  | NavigationFailed string "error option"

record goto_options =
  retries :: "nat option"

definition null_page_error :: error where
  "null_page_error = TypeError ''Cannot read properties of null (reading 'goto')''"

text \<open>
  The retry loop \<open>for (attempt = 1; attempt <= maxRetries; attempt++)\<close> of \<open>goto\<close>.
  \<open>page attempt\<close> is what \<open>this.page.goto(url, ..)\<close> does at that attempt: it throws
  (\<open>Inl\<close>) or resolves to a response with that status (\<open>Inr\<close>). The result is
  the response status or the thrown \<open>lastError\<close> (\<open>Inl None\<close> is \<open>throw undefined\<close>, when
  the body never ran), the delays slept between attempts (milliseconds), and the events
  emitted.
\<close>

function goto_loop ::
  "(nat \<Rightarrow> error + int) \<Rightarrow> string \<Rightarrow> nat \<Rightarrow> nat \<Rightarrow> error option
   \<Rightarrow> (error option + int) \<times> int list \<times> browser_event list" where
  "goto_loop page url maxRetries attempt lastError =
     (if attempt \<le> maxRetries
      then (case page attempt of
              Inr status \<Rightarrow>
                (Inr status, [],
                 (if status \<ge> 400 then [HttpError url status] else [])
                 @ [Navigated url status attempt])
            | Inl e \<Rightarrow>
                (case goto_loop page url maxRetries (attempt + 1) (Some e) of
                   (r, delays, evs) \<Rightarrow>
                     (r,
                      (if attempt < maxRetries
                       then [min (1000 * 2 ^ (attempt - 1)) 10000] else []) @ delays,
                      evs)))
      else (Inl lastError, [], [NavigationFailed url lastError]))"
  by pat_completeness auto
termination
  by (relation "measure (\<lambda>(page, url, maxRetries, attempt, lastError). Suc maxRetries - attempt)")
     auto

declare goto_loop.simps [simp del]

text \<open>
  \<open>goto(url, options)\<close>: \<open>maxRetries = options.retries || 3\<close>; \<open>Config.get()\<close> is
  called before the loop and throws when the configuration is not loaded. With no page
  (\<open>this.page\<close> is null) every attempt throws a TypeError inside the \<open>try\<close>.
\<close>

definition goto ::
  "config option \<Rightarrow> (nat \<Rightarrow> error + int) \<Rightarrow> BrowserController \<Rightarrow> string \<Rightarrow> goto_options
   \<Rightarrow> (error option + int) \<times> int list \<times> browser_event list" where
  "goto cfg page b url options =
     (let maxRetries = (case retries options of
                          None \<Rightarrow> 3
                        | Some n \<Rightarrow> if n = 0 then 3 else n)
      in case cfg of
           None \<Rightarrow> (Inl (Some config_not_loaded), [], [])
         | Some c \<Rightarrow>
             goto_loop (if page_open b then page else (\<lambda>attempt. Inl null_page_error))
               url maxRetries 1 None)"

text \<open>The delay that \<open>goto\<close> sleeps after a failed attempt that is not the last.\<close>

definition backoff :: "nat \<Rightarrow> int" where
  "backoff attempt = min (1000 * 2 ^ (attempt - 1)) 10000"

section \<open>Session manager (src/core/session.js)\<close>

datatype SessionState = IDLE | STARTING | RUNNING | PAUSED | STOPPING | STOPPED | ERROR

fun SessionState_string :: "SessionState \<Rightarrow> string" where
  "SessionState_string IDLE = ''idle''"
| "SessionState_string STARTING = ''starting''"
| "SessionState_string RUNNING = ''running''"
| "SessionState_string PAUSED = ''paused''"
| "SessionState_string STOPPING = ''stopping''"
| "SessionState_string STOPPED = ''stopped''"
| "SessionState_string ERROR = ''error''"

text \<open>An entry of \<open>stats.errors\<close>: \<open>{ type, url, error, time }\<close>.\<close>

record error_entry =
  entry_type :: string
  entry_url :: "string option"
  entry_error :: string
  entry_time :: int

record SessionStats =
  startTime :: "int option"
  endTime :: "int option"
  sitesVisited :: nat
  sitesSuccessful :: nat
  sitesFailed :: nat
  searchesPerformed :: nat
  linksClicked :: nat
  totalScrollDistance :: real
  pagesViewed :: nat
  errors :: "error_entry list"
  visitedUrls :: "string list"

text \<open>
  The object \<open>getStats()\<close> returns. \<open>successRate\<close> is the percentage before it is
  formatted with \<open>toFixed(1)\<close>; \<open>durationFormatted\<close> is left out.
\<close>

record stats_view =
  view_stats :: SessionStats
  view_duration :: int
  view_successRate :: real
  view_state :: SessionState
  view_currentSite :: "string option"
  view_remainingSites :: int

text \<open>
  The events a session emits, with their payloads: \<open>siteStart {url, current, total}\<close>,
  \<open>pageVisited {url, status}\<close>, \<open>siteComplete {url, duration, pageInfo, current, total}\<close>,
  \<open>siteFailed {url, error, duration}\<close>, \<open>captchaDetected {url}\<close>,
  \<open>started {siteCount}\<close>, \<open>breakStart {duration}\<close>, and \<open>completed\<close> and \<open>stopped\<close>
  with the statistics. The payload of \<open>searchPerformed\<close> is left out.
\<close>

datatype event =
    StateChange SessionState
  | Initialized
  | ErrorEvent error
  | Started nat
  | Completed stats_view
  | Stopped stats_view
  | Paused
  | Resumed
  | SearchPerformed
  | SiteStart string nat nat
  | PageVisited string int
  | CaptchaDetected string
  | SiteComplete string int "string option" nat nat
  | SiteFailed string string int
  | BreakStart int
  | BreakEnd

text \<open>
  What \<open>stayOnPage\<close> returns: the actions it performed, of which the session reads the
  scrolled distance of a scroll and the \<open>clicked\<close> flag of a click, and whether a click
  navigated away.
\<close>

datatype stay_action = StayScroll real | StayClick bool | StayOther

record stay_result =
  stay_actions :: "stay_action list"
  navigatedAway :: bool

datatype stay_key = SiteStay nat | FollowStay nat nat | SearchStay nat

text \<open>
  Everything outside the session that a run depends on. \<open>Config_get\<close> is the loaded
  configuration (\<open>None\<close>: not loaded, \<open>Config.get()\<close> throws); \<open>Math_random\<close> is the
  default source and \<open>new_RegExp\<close> the regular-expression engine; \<open>clock n\<close> is the
  \<open>n\<close>-th reading of the wall clock (\<open>Date.now()\<close>, \<open>new Date()\<close>) in milliseconds.
  The remaining fields are the outcomes of the calls into the browser and the page:
  \<open>Sites_load\<close> and \<open>browser_launch\<close> for \<open>initialize()\<close>; \<open>page_goto k attempt\<close>,
  \<open>hasCaptcha k\<close>, \<open>getPageInfo k\<close> for the \<open>k\<close>-th site of the queue (counted from 1);
  \<open>stayOnPage\<close> for the stay on the \<open>k\<close>-th site, on a followed link at some depth, or on
  the results of the \<open>i\<close>-th search; \<open>performSearch i\<close> (whether it searched).
  \<open>hasCaptcha\<close>, \<open>getPageInfo\<close> and \<open>dismissPopups\<close> catch their own errors. The content
  type that the session looks up for \<open>stayOnPage\<close> only selects the length of the stay
  inside it, so it is part of the outcome that the world gives. Listeners of the
  session's events do not throw.
\<close>

record 'g world =
  Config_get :: "config option"
  Math_random :: "'g rng"
  new_RegExp :: "string \<Rightarrow> (string \<Rightarrow> bool) option"
  clock :: "nat \<Rightarrow> int"
  Sites_load :: "error + sites_config"
  browser_launch :: "error option"
  page_goto :: "nat \<Rightarrow> nat \<Rightarrow> error + int"
  hasCaptcha :: "nat \<Rightarrow> bool"
  getPageInfo :: "nat \<Rightarrow> string option"
  stayOnPage :: "stay_key \<Rightarrow> error + stay_result"
  performSearch :: "nat \<Rightarrow> error + bool"
  page_screenshot :: "error + string"
  process_uptime :: real

text \<open>
  The session object. \<open>browser\<close> is \<open>None\<close> for \<open>null\<close>; \<open>actions_set\<close> says whether
  \<open>this.actions\<close> is set. \<open>isPaused\<close> stands for \<open>_isPaused\<close> together with the pending
  \<open>_pausePromise\<close>. Beside the fields of the class the record holds what the run reads and
  writes outside the object: the events emitted so far (\<open>emitted\<close>, oldest first), the
  delays of the timers awaited (\<open>timers\<close>), the number of clock readings made, the state
  of \<open>Math.random\<close>, and the \<open>_sites\<close> field of the \<open>Sites\<close> singleton.
\<close>

record 'g SessionManager =
  browser :: "BrowserController option"
  actions_set :: bool
  state :: SessionState
  stats :: SessionStats
  shouldStop :: bool
  isPaused :: bool
  currentSite :: "string option"
  siteQueue :: "string list"
  emitted :: "event list"
  timers :: "int list"
  clock_reads :: nat
  random_state :: 'g
  Sites_sites :: "sites_config option"

definition initial_stats :: SessionStats where
  "initial_stats =
     \<lparr>startTime = None, endTime = None, sitesVisited = 0, sitesSuccessful = 0,
      sitesFailed = 0, searchesPerformed = 0, linksClicked = 0, totalScrollDistance = 0,
      pagesViewed = 0, errors = [], visitedUrls = []\<rparr>"

text \<open>The constructor, given the state of \<open>Math.random\<close> and of the \<open>Sites\<close> singleton.\<close>

definition SessionManager_new :: "'g \<Rightarrow> sites_config option \<Rightarrow> 'g SessionManager" where
  "SessionManager_new g sites =
     \<lparr>browser = None, actions_set = False, state = IDLE, stats = initial_stats,
      shouldStop = False, isPaused = False, currentSite = None, siteQueue = [],
      emitted = [], timers = [], clock_reads = 0, random_state = g, Sites_sites = sites\<rparr>"

text \<open>
  What a call does: it returns, it throws, or it never completes because it awaits the
  pause promise, which only a concurrent \<open>resume()\<close> resolves (\<open>Blocked\<close>). The model is
  sequential: calls of \<open>pause\<close>, \<open>resume\<close> and \<open>stop\<close> that arrive while a run awaits
  are not interleaved with it.
\<close>

datatype 'a outcome = Return 'a | Throw error | Blocked

definition emit :: "event \<Rightarrow> 'g SessionManager \<Rightarrow> 'g SessionManager" where
  "emit e s = s\<lparr>emitted := emitted s @ [e]\<rparr>"

definition Date_now :: "'g world \<Rightarrow> 'g SessionManager \<Rightarrow> int \<times> 'g SessionManager" where
  "Date_now w s = (clock w (clock_reads s), s\<lparr>clock_reads := Suc (clock_reads s)\<rparr>)"

definition sleep :: "int \<Rightarrow> 'g SessionManager \<Rightarrow> 'g SessionManager" where
  "sleep ms s = s\<lparr>timers := timers s @ [ms]\<rparr>"

definition push_error ::
  "string \<Rightarrow> string option \<Rightarrow> string \<Rightarrow> 'g world \<Rightarrow> 'g SessionManager \<Rightarrow> 'g SessionManager" where
  "push_error ty url msg w s =
     (case Date_now w s of (t, s1) \<Rightarrow>
        s1\<lparr>stats := (stats s1)\<lparr>errors := errors (stats s1)
            @ [\<lparr>entry_type = ty, entry_url = url, entry_error = msg, entry_time = t\<rparr>]\<rparr>\<rparr>)"

text \<open>\<open>Random.int\<close> and \<open>Random.bool\<close> on the default source \<open>Math.random\<close>.\<close>

definition random_int :: "int \<Rightarrow> int \<Rightarrow> 'g world \<Rightarrow> 'g SessionManager \<Rightarrow> int \<times> 'g SessionManager" where
  "random_int mn mx w s =
     (case Random_int mn mx (Math_random w) (random_state s) of
        (v, g') \<Rightarrow> (v, s\<lparr>random_state := g'\<rparr>))"

definition random_bool :: "real \<Rightarrow> 'g world \<Rightarrow> 'g SessionManager \<Rightarrow> bool \<times> 'g SessionManager" where
  "random_bool p w s =
     (case Random_bool p (Math_random w) (random_state s) of
        (v, g') \<Rightarrow> (v, s\<lparr>random_state := g'\<rparr>))"

subsection \<open>initialize()\<close>

text \<open>
  The handlers that \<open>initialize()\<close> registers on the browser controller: \<open>navigated\<close>
  is re-emitted as \<open>pageVisited\<close>, \<open>navigationFailed\<close> records a navigation error
  (reading \<open>error.message\<close>, which throws a TypeError when the error is \<open>undefined\<close>);
  nothing listens to \<open>httpError\<close>. A session's \<open>browser\<close> field is only set by
  \<open>initialize()\<close>, so these handlers are registered on every controller a session holds.
\<close>

definition undefined_message_error :: error where
  "undefined_message_error = TypeError ''Cannot read properties of undefined (reading 'message')''"

fun handle_browser_events ::
  "'g world \<Rightarrow> browser_event list \<Rightarrow> 'g SessionManager \<Rightarrow> error option \<times> 'g SessionManager" where
  "handle_browser_events w [] s = (None, s)"
| "handle_browser_events w (HttpError url status # evs) s = handle_browser_events w evs s"
| "handle_browser_events w (Navigated url status attempt # evs) s =
     handle_browser_events w evs (emit (PageVisited url status) s)"
| "handle_browser_events w (NavigationFailed url (Some e) # evs) s =
     handle_browser_events w evs (push_error ''navigation'' (Some url) (message e) w s)"
| "handle_browser_events w (NavigationFailed url None # evs) s =
     (Some undefined_message_error, s)"

text \<open>
  \<open>initialize()\<close>: the state becomes \<open>starting\<close>; then, inside \<open>try\<close>, the sites
  configuration is loaded, the browser controller is created and launched (\<open>launch()\<close>
  reads the configuration first), and the actions handler is created. Any throw sets the
  state to \<open>error\<close>, emits \<open>stateChange\<close> and \<open>error\<close>, and is thrown again.
\<close>

definition initialize_try :: "'g world \<Rightarrow> 'g SessionManager \<Rightarrow> error option \<times> 'g SessionManager" where
  "initialize_try w s =
     (case Sites_load w of
        Inl e \<Rightarrow> (Some e, s)
      | Inr loaded \<Rightarrow>
          (let s1 = s\<lparr>Sites_sites := Some loaded\<rparr>;
               s2 = s1\<lparr>browser := Some \<lparr>page_open = False\<rparr>\<rparr>
           in case Config_get w of
                None \<Rightarrow> (Some config_not_loaded, s2)
              | Some c \<Rightarrow>
                  (case browser_launch w of
                     Some e \<Rightarrow> (Some e, s2)
                   | None \<Rightarrow>
                       (let s3 = s2\<lparr>browser := Some \<lparr>page_open = True\<rparr>\<rparr>;
                            s4 = s3\<lparr>actions_set := True\<rparr>
                        in (None, emit Initialized s4)))))"

definition initialize :: "'g world \<Rightarrow> 'g SessionManager \<Rightarrow> bool outcome \<times> 'g SessionManager" where
  "initialize w s =
     (let s1 = emit (StateChange STARTING) (s\<lparr>state := STARTING\<rparr>)
      in case initialize_try w s1 of
           (None, s2) \<Rightarrow> (Return True, s2)
         | (Some e, s2) \<Rightarrow>
             (Throw e, emit (ErrorEvent e) (emit (StateChange ERROR) (s2\<lparr>state := ERROR\<rparr>))))"

subsection \<open>_visitSite and _followLinks\<close>

definition null_browser_error :: error where
  "null_browser_error = TypeError ''Cannot read properties of null (reading 'goto')''"

definition null_actions_error :: error where
  "null_actions_error = TypeError ''Cannot read properties of null (reading 'dismissPopups')''"

text \<open>
  \<open>await this.browser.goto(url)\<close> as the session sees it: the timers of the backoff,
  then the controller's events through the session's handlers, then the result.
  \<open>None\<close> is a navigation that resolved, \<open>Some e\<close> one that threw \<open>e\<close>.
\<close>

definition navigate ::
  "'g world \<Rightarrow> string \<Rightarrow> nat \<Rightarrow> 'g SessionManager \<Rightarrow> error option \<times> 'g SessionManager" where
  "navigate w url current s =
     (case browser s of
        None \<Rightarrow> (Some null_browser_error, s)
      | Some b \<Rightarrow>
          (case goto (Config_get w) (page_goto w current) b url \<lparr>retries = None\<rparr> of
             (r, delays, evs) \<Rightarrow>
               (case handle_browser_events w evs (fold sleep delays s) of
                  (Some e, s1) \<Rightarrow> (Some e, s1)
                | (None, s1) \<Rightarrow>
                    (case r of
                       Inr status \<Rightarrow> (None, s1)
                     | Inl (Some e) \<Rightarrow> (Some e, s1)
                     | Inl None \<Rightarrow> (Some undefined_message_error, s1)))))"

text \<open>
  \<open>_followLinks(depth)\<close>. The configuration is read at each call; it does not change
  during a run, so the recursion passes it on.
\<close>

function followLinks_loop ::
  "'g world \<Rightarrow> config \<Rightarrow> nat \<Rightarrow> nat \<Rightarrow> 'g SessionManager \<Rightarrow> error option \<times> 'g SessionManager" where
  "followLinks_loop w cfg current depth s =
     (if int depth \<ge> behavior_maxDepth cfg then (None, s)
      else if \<not> behavior_clickLinks cfg then (None, s)
      else (case random_bool (0.3 / real depth) w s of
              (shouldFollow, s1) \<Rightarrow>
                if \<not> shouldFollow then (None, s1)
                else (case stayOnPage w (FollowStay current depth) of
                        Inl e \<Rightarrow> (Some e, s1)
                      | Inr stayResult \<Rightarrow>
                          (let s2 = s1\<lparr>stats := (stats s1)
                                     \<lparr>pagesViewed := pagesViewed (stats s1) + 1\<rparr>\<rparr>
                           in if navigatedAway stayResult
                              then followLinks_loop w cfg current (depth + 1) s2
                              else (None, s2)))))"
  by pat_completeness auto
termination
  by (relation "measure (\<lambda>(w, cfg, current, depth, s). nat (behavior_maxDepth cfg - int depth))")
     auto

declare followLinks_loop.simps [simp del]

definition followLinks ::
  "'g world \<Rightarrow> nat \<Rightarrow> nat \<Rightarrow> 'g SessionManager \<Rightarrow> error option \<times> 'g SessionManager" where
  "followLinks w current depth s =
     (case Config_get w of
        None \<Rightarrow> (Some config_not_loaded, s)
      | Some cfg \<Rightarrow> followLinks_loop w cfg current depth s)"

text \<open>The loop over \<open>stayResult.actions\<close> that adds up scroll distance and clicks.\<close>

fun account_actions :: "stay_action list \<Rightarrow> SessionStats \<Rightarrow> SessionStats" where
  "account_actions [] st = st"
| "account_actions (StayScroll d # as) st =
     account_actions as
       (if d \<noteq> 0 then st\<lparr>totalScrollDistance := totalScrollDistance st + d\<rparr> else st)"
| "account_actions (StayClick c # as) st =
     account_actions as (if c then st\<lparr>linksClicked := linksClicked st + 1\<rparr> else st)"
| "account_actions (StayOther # as) st = account_actions as st"

text \<open>
  \<open>if (stayResult.navigatedAway) { this.stats.pagesViewed++; await this._followLinks(1); }\<close>
\<close>

definition follow_after_stay ::
  "'g world \<Rightarrow> nat \<Rightarrow> stay_result \<Rightarrow> 'g SessionManager \<Rightarrow> error option \<times> 'g SessionManager" where
  "follow_after_stay w current stayResult s =
     (if navigatedAway stayResult
      then followLinks w current 1
             (s\<lparr>stats := (stats s)\<lparr>pagesViewed := pagesViewed (stats s) + 1\<rparr>\<rparr>)
      else (None, s))"

text \<open>
  The \<open>try\<close> block of \<open>_visitSite\<close>, entered at clock reading \<open>t0\<close>. The result is
  \<open>None\<close> when the block completes (also through the \<open>return\<close> of the captcha branch) and
  \<open>Some e\<close> when it throws \<open>e\<close>, with the session as it is at that point.
\<close>

definition visit_try ::
  "'g world \<Rightarrow> string \<Rightarrow> nat \<Rightarrow> nat \<Rightarrow> int \<Rightarrow> 'g SessionManager
   \<Rightarrow> error option \<times> 'g SessionManager" where
  "visit_try w url current totalSites t0 s =
     (case navigate w url current s of
        (Some e, s1) \<Rightarrow> (Some e, s1)
      | (None, s1) \<Rightarrow>
          (let s2 = s1\<lparr>stats := (stats s1)\<lparr>pagesViewed := pagesViewed (stats s1) + 1,
                                             visitedUrls := visitedUrls (stats s1) @ [url]\<rparr>\<rparr>
           in if \<not> actions_set s2 then (Some null_actions_error, s2)
              else if hasCaptcha w current
              then (None, emit (CaptchaDetected url)
                            (s2\<lparr>stats := (stats s2)\<lparr>sitesFailed := sitesFailed (stats s2) + 1\<rparr>\<rparr>))
              else (case stayOnPage w (SiteStay current) of
                      Inl e \<Rightarrow> (Some e, s2)
                    | Inr stayResult \<Rightarrow>
                        (let s3 = s2\<lparr>stats := account_actions (stay_actions stayResult) (stats s2)\<rparr>
                         in case follow_after_stay w current stayResult s3 of
                              (Some e, s4) \<Rightarrow> (Some e, s4)
                            | (None, s4) \<Rightarrow>
                                (case Date_now w s4 of
                                   (t1, s5) \<Rightarrow>
                                     (None,
                                      emit (SiteComplete url (t1 - t0) (getPageInfo w current)
                                              current totalSites)
                                        (s5\<lparr>stats := (stats s5)
                                            \<lparr>sitesSuccessful := sitesSuccessful (stats s5) + 1\<rparr>\<rparr>)))))))"

text \<open>
  \<open>_visitSite(url, current, total)\<close>: count the visit, emit \<open>siteStart\<close>, run the
  \<open>try\<close> block, and in the \<open>catch\<close> block count the failure, record the error and emit
  \<open>siteFailed\<close>. The function itself does not throw.
\<close>

definition visitSite ::
  "'g world \<Rightarrow> string \<Rightarrow> nat \<Rightarrow> nat \<Rightarrow> 'g SessionManager \<Rightarrow> 'g SessionManager" where
  "visitSite w url current totalSites s =
     (case Date_now w s of
        (t0, s0) \<Rightarrow>
          (let s1 = emit (SiteStart url current totalSites)
                      (s0\<lparr>stats := (stats s0)\<lparr>sitesVisited := sitesVisited (stats s0) + 1\<rparr>\<rparr>)
           in case visit_try w url current totalSites t0 s1 of
                (None, s2) \<Rightarrow> s2
              | (Some e, s2) \<Rightarrow>
                  (case Date_now w s2 of
                     (t1, s3) \<Rightarrow>
                       (let s4 = s3\<lparr>stats := (stats s3)\<lparr>sitesFailed := sitesFailed (stats s3) + 1\<rparr>\<rparr>;
                            s5 = push_error ''visit'' (Some url) (message e) w s4
                        in emit (SiteFailed url (message e) (t1 - t0)) s5))))"

subsection \<open>Waiting, breaks and the loops over searches and sites\<close>

text \<open>\<open>Timing.betweenSitesDelay\<close>.\<close>

definition betweenSitesDelay :: "'g rng \<Rightarrow> 'g \<Rightarrow> int \<times> 'g" where
  "betweenSitesDelay nxt g =
     (case Random_bool 0.2 nxt g of (quick, g1) \<Rightarrow>
        if quick then Random_int 1000 5000 nxt g1
        else (case Random_bool 0.1 nxt g1 of (long, g2) \<Rightarrow>
                if long then Random_int 30000 120000 nxt g2
                else Random_int 5000 30000 nxt g2))"

definition waitBetweenSites ::
  "'g world \<Rightarrow> 'g SessionManager \<Rightarrow> int outcome \<times> 'g SessionManager" where
  "waitBetweenSites w s =
     (case Config_get w of
        None \<Rightarrow> (Throw config_not_loaded, s)
      | Some cfg \<Rightarrow>
          (case betweenSitesDelay (Math_random w) (random_state s) of
             (delay, g') \<Rightarrow>
               (let clampedDelay = max (timing_minWait cfg * 1000)
                                        (min (timing_maxWait cfg * 1000) delay)
                in (Return clampedDelay, sleep clampedDelay (s\<lparr>random_state := g'\<rparr>)))))"

definition takeBreak :: "'g world \<Rightarrow> config \<Rightarrow> 'g SessionManager \<Rightarrow> 'g SessionManager" where
  "takeBreak w cfg s =
     (case random_int (breakDuration_min cfg * 1000) (breakDuration_max cfg * 1000) w s of
        (d, s1) \<Rightarrow> emit BreakEnd (sleep d (emit (BreakStart d) s1)))"

definition null_startTime_error :: error where
  "null_startTime_error = TypeError ''Cannot read properties of null (reading 'getTime')''"

text \<open>
  \<open>(Date.now() - this.stats.startTime.getTime()) / 1000 / 60\<close>: the minutes since the
  start of the session.
\<close>

definition elapsed_minutes ::
  "'g world \<Rightarrow> 'g SessionManager \<Rightarrow> real outcome \<times> 'g SessionManager" where
  "elapsed_minutes w s =
     (case Date_now w s of
        (t, s1) \<Rightarrow>
          (case startTime (stats s1) of
             None \<Rightarrow> (Throw null_startTime_error, s1)
           | Some t0 \<Rightarrow> (Return (real_of_int (t - t0) / 1000 / 60), s1)))"

text \<open>
  The check for a scheduled break in \<open>_visitSites\<close>: \<open>breaksDue\<close> against the estimate
  \<open>breaksTaken = floor(sitesVisited / 10)\<close>.
\<close>

definition break_check ::
  "'g world \<Rightarrow> config \<Rightarrow> 'g SessionManager \<Rightarrow> unit outcome \<times> 'g SessionManager" where
  "break_check w cfg s =
     (if session_breakInterval cfg > 0
      then (case elapsed_minutes w s of
              (Return elapsed, s1) \<Rightarrow>
                (let breaksDue = \<lfloor>elapsed / session_breakInterval cfg\<rfloor>;
                     breaksTaken = int (sitesVisited (stats s1) div 10)
                 in if breaksDue > breaksTaken \<and> sitesVisited (stats s1) > 0
                    then (Return (), takeBreak w cfg s1)
                    else (Return (), s1))
            | (Throw e, s1) \<Rightarrow> (Throw e, s1)
            | (Blocked, s1) \<Rightarrow> (Blocked, s1))
      else (Return (), s))"

text \<open>
  The \<open>for\<close> loop of \<open>_visitSites\<close>. \<open>i\<close> is the loop index and the list the part of
  the queue from index \<open>i\<close> on; \<open>totalSites\<close> is the length of the whole queue. The
  outcome of the maximum-duration check is \<open>Return True\<close> when the limit is reached.
\<close>

definition duration_check ::
  "'g world \<Rightarrow> config \<Rightarrow> 'g SessionManager \<Rightarrow> bool outcome \<times> 'g SessionManager" where
  "duration_check w cfg s =
     (if session_maxDuration cfg > 0
      then (case elapsed_minutes w s of
              (Return elapsed, s1) \<Rightarrow> (Return (elapsed \<ge> session_maxDuration cfg), s1)
            | (Throw e, s1) \<Rightarrow> (Throw e, s1)
            | (Blocked, s1) \<Rightarrow> (Blocked, s1))
      else (Return False, s))"

fun visitSites_loop ::
  "'g world \<Rightarrow> config \<Rightarrow> nat \<Rightarrow> nat \<Rightarrow> string list \<Rightarrow> 'g SessionManager
   \<Rightarrow> unit outcome \<times> 'g SessionManager" where
  "visitSites_loop w cfg totalSites i [] s = (Return (), s)"
| "visitSites_loop w cfg totalSites i (site # rest) s =
     (if shouldStop s then (Return (), s)
      else if isPaused s then (Blocked, s)
      else if session_maxPages cfg > 0 \<and> int (pagesViewed (stats s)) \<ge> session_maxPages cfg
      then (Return (), s)
      else (case duration_check w cfg s of
              (Throw e, s1) \<Rightarrow> (Throw e, s1)
            | (Blocked, s1) \<Rightarrow> (Blocked, s1)
            | (Return True, s1) \<Rightarrow> (Return (), s1)
            | (Return False, s1) \<Rightarrow>
                (case break_check w cfg (s1\<lparr>currentSite := Some site\<rparr>) of
                   (Throw e, s2) \<Rightarrow> (Throw e, s2)
                 | (Blocked, s2) \<Rightarrow> (Blocked, s2)
                 | (Return u, s2) \<Rightarrow>
                     (let s3 = visitSite w site (i + 1) totalSites s2
                      in if rest \<noteq> [] \<and> \<not> shouldStop s3
                         then (case waitBetweenSites w s3 of
                                 (Throw e, s4) \<Rightarrow> (Throw e, s4)
                               | (Blocked, s4) \<Rightarrow> (Blocked, s4)
                               | (Return d, s4) \<Rightarrow>
                                   visitSites_loop w cfg totalSites (i + 1) rest s4)
                         else visitSites_loop w cfg totalSites (i + 1) rest s3))))"

definition visitSites :: "'g world \<Rightarrow> 'g SessionManager \<Rightarrow> unit outcome \<times> 'g SessionManager" where
  "visitSites w s =
     (case Config_get w of
        None \<Rightarrow> (Throw config_not_loaded, s)
      | Some cfg \<Rightarrow> visitSites_loop w cfg (length (siteQueue s)) 0 (siteQueue s) s)"

text \<open>
  One iteration of \<open>_performSearches\<close> inside its \<open>try\<close>: the search, the stay on the
  results when it searched, and the wait unless it is the last iteration (\<open>notLast\<close> is \<open>i < count - 1\<close>).
\<close>

definition null_search_error :: error where
  "null_search_error = TypeError ''Cannot read properties of null (reading 'performSearch')''"

definition search_try ::
  "'g world \<Rightarrow> nat \<Rightarrow> bool \<Rightarrow> 'g SessionManager \<Rightarrow> error option \<times> 'g SessionManager" where
  "search_try w i notLast s =
     (if \<not> actions_set s then (Some null_search_error, s)
      else (case performSearch w i of
              Inl e \<Rightarrow> (Some e, s)
            | Inr searched \<Rightarrow>
                (case (if searched
                       then (let s1 = emit SearchPerformed
                                        (s\<lparr>stats := (stats s)\<lparr>searchesPerformed :=
                                              searchesPerformed (stats s) + 1\<rparr>\<rparr>)
                             in case stayOnPage w (SearchStay i) of
                                  Inl e \<Rightarrow> (Some e, s1)
                                | Inr r \<Rightarrow> (None, s1))
                       else (None, s)) of
                   (Some e, s2) \<Rightarrow> (Some e, s2)
                 | (None, s2) \<Rightarrow>
                     if notLast
                     then (case waitBetweenSites w s2 of
                             (Throw e, s3) \<Rightarrow> (Some e, s3)
                           | (Blocked, s3) \<Rightarrow> (None, s3)
                           | (Return d, s3) \<Rightarrow> (None, s3))
                     else (None, s2))))"

text \<open>
  The \<open>for\<close> loop of \<open>_performSearches(count)\<close>: \<open>i\<close> is the loop index and the first
  argument the number of iterations left, \<open>count - i\<close>.
\<close>

fun performSearches_loop ::
  "nat \<Rightarrow> 'g world \<Rightarrow> nat \<Rightarrow> 'g SessionManager \<Rightarrow> unit outcome \<times> 'g SessionManager" where
  "performSearches_loop 0 w i s = (Return (), s)"
| "performSearches_loop (Suc n) w i s =
     (if shouldStop s then (Return (), s)
      else if isPaused s then (Blocked, s)
      else (case search_try w i (n > 0) s of
              (None, s1) \<Rightarrow> performSearches_loop n w (i + 1) s1
            | (Some e, s1) \<Rightarrow>
                performSearches_loop n w (i + 1) (push_error ''search'' None (message e) w s1)))"

definition performSearches ::
  "'g world \<Rightarrow> int \<Rightarrow> 'g SessionManager \<Rightarrow> unit outcome \<times> 'g SessionManager" where
  "performSearches w cnt s = performSearches_loop (nat cnt) w 0 s"

subsection \<open>getStats, _handleError, start, pause, resume, stop, screenshot\<close>

definition getStats :: "'g world \<Rightarrow> 'g SessionManager \<Rightarrow> stats_view \<times> 'g SessionManager" where
  "getStats w s =
     (case Date_now w s of
        (now, s1) \<Rightarrow>
          (\<lparr>view_stats = stats s1,
            view_duration =
              (case startTime (stats s1) of
                 None \<Rightarrow> 0
               | Some t0 \<Rightarrow> (case endTime (stats s1) of None \<Rightarrow> now | Some t1 \<Rightarrow> t1) - t0),
            view_successRate =
              (if sitesVisited (stats s1) > 0
               then real (sitesSuccessful (stats s1)) / real (sitesVisited (stats s1)) * 100
               else 0),
            view_state = state s1,
            view_currentSite = currentSite s1,
            view_remainingSites = int (length (siteQueue s1)) - int (sitesVisited (stats s1))\<rparr>,
           s1))"

definition handleError :: "'g world \<Rightarrow> error \<Rightarrow> 'g SessionManager \<Rightarrow> 'g SessionManager" where
  "handleError w e s =
     (case Date_now w (s\<lparr>state := ERROR\<rparr>) of
        (t, s1) \<Rightarrow>
          (let s2 = s1\<lparr>stats := (stats s1)\<lparr>endTime := Some t\<rparr>\<rparr>;
               s3 = push_error ''fatal'' None (message e) w s2
           in emit (ErrorEvent e) (emit (StateChange ERROR) s3)))"

text \<open>
  The part of \<open>start()\<close> after its state check: read the configuration, build the site
  queue, fail when it is empty; otherwise switch to \<open>running\<close>, stamp \<open>startTime\<close>,
  emit \<open>stateChange\<close> and \<open>started\<close> and run the searches and the visits inside \<open>try\<close>.
\<close>

definition start_try ::
  "'g world \<Rightarrow> config \<Rightarrow> 'g SessionManager \<Rightarrow> unit outcome \<times> 'g SessionManager" where
  "start_try w cfg s =
     (case (if behavior_searches cfg \<and> behavior_searchCount cfg > 0
            then performSearches w (behavior_searchCount cfg) s
            else (Return (), s)) of
        (Throw e, s1) \<Rightarrow> (Throw e, s1)
      | (Blocked, s1) \<Rightarrow> (Blocked, s1)
      | (Return u, s1) \<Rightarrow>
          (case visitSites w s1 of
             (Throw e, s2) \<Rightarrow> (Throw e, s2)
           | (Blocked, s2) \<Rightarrow> (Blocked, s2)
           | (Return u', s2) \<Rightarrow>
               (case Date_now w s2 of
                  (t, s3) \<Rightarrow>
                    (let s4 = s3\<lparr>stats := (stats s3)\<lparr>endTime := Some t\<rparr>, state := STOPPED\<rparr>;
                         s5 = emit (StateChange STOPPED) s4
                     in case getStats w s5 of
                          (view, s6) \<Rightarrow> (Return (), emit (Completed view) s6)))))"

definition empty_queue_error :: error where
  "empty_queue_error = Error ''No sites to visit. Check your configuration.''"

text \<open>The options that \<open>start()\<close> passes to \<open>getSites\<close>.\<close>

definition start_options :: "config \<Rightarrow> getSites_options" where
  "start_options cfg =
     \<lparr>custom = Some (sites_custom cfg), exclude = Some (sites_exclude cfg),
      maxSites = Some (sites_maxSites cfg), shuffle_option = Some (sites_shuffleSites cfg)\<rparr>"

text \<open>
  \<open>this.state = RUNNING; this.stats.startTime = new Date();
    this.emit('stateChange', this.state); this.emit('started', { siteCount })\<close>
\<close>

definition begin_run :: "'g world \<Rightarrow> 'g SessionManager \<Rightarrow> 'g SessionManager" where
  "begin_run w s =
     (case Date_now w (s\<lparr>state := RUNNING\<rparr>) of
        (t, s1) \<Rightarrow>
          emit (Started (length (siteQueue s1)))
            (emit (StateChange RUNNING) (s1\<lparr>stats := (stats s1)\<lparr>startTime := Some t\<rparr>\<rparr>)))"

definition start_body :: "'g world \<Rightarrow> 'g SessionManager \<Rightarrow> unit outcome \<times> 'g SessionManager" where
  "start_body w s =
     (case Config_get w of
        None \<Rightarrow> (Throw config_not_loaded, s)
      | Some cfg \<Rightarrow>
          (case getSites (Sites_sites s) (sites_categories cfg) (start_options cfg)
                  (new_RegExp w) (Math_random w) (random_state s) of
             Inl e \<Rightarrow> (Throw e, s)
           | Inr (queue, g') \<Rightarrow>
               (let s1 = s\<lparr>siteQueue := queue, random_state := g'\<rparr>
                in if length queue = 0 then (Throw empty_queue_error, s1)
                   else (case start_try w cfg (begin_run w s1) of
                           (Throw e, s2) \<Rightarrow> (Throw e, handleError w e s2)
                         | (Blocked, s2) \<Rightarrow> (Blocked, s2)
                         | (Return u, s2) \<Rightarrow> (Return (), s2)))))"

text \<open>
  \<open>start()\<close>. Its first statement is
  \<open>if (state !== STARTING && state !== IDLE) { if (state === IDLE) await this.initialize();
    else throw new Error(..) }\<close>.
  \<open>start_with\<close> takes the function called in the inner branch as an argument;
  \<open>start\<close> is the method of the class, where that function is \<open>initialize\<close>.
\<close>

definition start_with ::
  "('g world \<Rightarrow> 'g SessionManager \<Rightarrow> bool outcome \<times> 'g SessionManager)
   \<Rightarrow> 'g world \<Rightarrow> 'g SessionManager \<Rightarrow> unit outcome \<times> 'g SessionManager" where
  "start_with ini w s =
     (case (if state s \<noteq> STARTING \<and> state s \<noteq> IDLE
            then (if state s = IDLE then ini w s
                  else (Throw (Error (''Cannot start session in state: ''
                                       @ SessionState_string (state s))), s))
            else (Return True, s)) of
        (Throw e, s1) \<Rightarrow> (Throw e, s1)
      | (Blocked, s1) \<Rightarrow> (Blocked, s1)
      | (Return b, s1) \<Rightarrow> start_body w s1)"

definition start :: "'g world \<Rightarrow> 'g SessionManager \<Rightarrow> unit outcome \<times> 'g SessionManager" where
  "start w s = start_with initialize w s"

definition pause :: "'g SessionManager \<Rightarrow> bool \<times> 'g SessionManager" where
  "pause s =
     (if state s \<noteq> RUNNING then (False, s)
      else (True, emit Paused (emit (StateChange PAUSED) (s\<lparr>isPaused := True, state := PAUSED\<rparr>))))"

definition resume :: "'g SessionManager \<Rightarrow> bool \<times> 'g SessionManager" where
  "resume s =
     (if state s \<noteq> PAUSED then (False, s)
      else (True, emit Resumed (emit (StateChange RUNNING) (s\<lparr>isPaused := False, state := RUNNING\<rparr>))))"

definition stop :: "'g world \<Rightarrow> 'g SessionManager \<Rightarrow> 'g SessionManager" where
  "stop w s =
     (if state s = STOPPED \<or> state s = STOPPING then s
      else (let s1 = emit (StateChange STOPPING) (s\<lparr>shouldStop := True, state := STOPPING\<rparr>);
                s2 = (if isPaused s1 then snd (resume s1) else s1);
                s3 = (case browser s2 of
                        None \<Rightarrow> s2
                      | Some b \<Rightarrow> s2\<lparr>browser := Some (b\<lparr>page_open := False\<rparr>)\<rparr>)
            in case Date_now w s3 of
                 (t, s4) \<Rightarrow>
                   (let s5 = s4\<lparr>stats := (stats s4)\<lparr>endTime := Some t\<rparr>, state := STOPPED\<rparr>;
                        s6 = emit (StateChange STOPPED) s5
                    in case getStats w s6 of (view, s7) \<Rightarrow> emit (Stopped view) s7)))"

definition screenshot :: "'g world \<Rightarrow> 'g SessionManager \<Rightarrow> error + string" where
  "screenshot w s =
     (case browser s of
        None \<Rightarrow> Inl (Error ''Browser not initialized'')
      | Some b \<Rightarrow> if \<not> page_open b then Inl (Error ''No active page'') else page_screenshot w)"

subsection \<open>Notions used to state properties of a visit\<close>

fun is_siteComplete :: "event \<Rightarrow> bool" where
  "is_siteComplete (SiteComplete url d info current totalSites) = True"
| "is_siteComplete e = False"

fun is_siteFailed :: "event \<Rightarrow> bool" where
  "is_siteFailed (SiteFailed url msg d) = True"
| "is_siteFailed e = False"

fun is_captchaDetected :: "event \<Rightarrow> bool" where
  "is_captchaDetected (CaptchaDetected url) = True"
| "is_captchaDetected e = False"

fun is_pageVisited :: "event \<Rightarrow> bool" where
  "is_pageVisited (PageVisited url status) = True"
| "is_pageVisited e = False"

text \<open>The events that one call of \<open>_visitSite\<close> emits, in order.\<close>

definition visit_events :: "'g world \<Rightarrow> string \<Rightarrow> nat \<Rightarrow> nat \<Rightarrow> 'g SessionManager \<Rightarrow> event list" where
  "visit_events w url current totalSites s =
     drop (length (emitted s)) (emitted (visitSite w url current totalSites s))"

text \<open>The invariant of the site counters.\<close>

definition counters_consistent :: "SessionStats \<Rightarrow> bool" where
  "counters_consistent st = (sitesVisited st = sitesSuccessful st + sitesFailed st)"

text \<open>
  The fields of a session that a visit, a wait and a break leave as they are: the
  control state and flags, the queue, the browser and actions handles, the sites
  configuration and the start time.
\<close>

definition same_control :: "'g SessionManager \<Rightarrow> 'g SessionManager \<Rightarrow> bool" where
  "same_control s s' =
     (state s' = state s \<and> shouldStop s' = shouldStop s \<and> isPaused s' = isPaused s
      \<and> siteQueue s' = siteQueue s \<and> browser s' = browser s
      \<and> actions_set s' = actions_set s \<and> Sites_sites s' = Sites_sites s
      \<and> startTime (stats s') = startTime (stats s))"

text \<open>The three site counters of a session.\<close>

definition site_counters :: "'g SessionManager \<Rightarrow> nat \<times> nat \<times> nat" where
  "site_counters s =
     (sitesVisited (stats s), sitesSuccessful (stats s), sitesFailed (stats s))"

text \<open>Steps that neither emit nor touch the counters or the control fields.\<close>

definition quiet :: "'g SessionManager \<Rightarrow> 'g SessionManager \<Rightarrow> bool" where
  "quiet s s' = (same_control s s' \<and> site_counters s' = site_counters s \<and> emitted s' = emitted s)"

text \<open>
  What the \<open>try\<close> block of a visit does to the counters and the event stream, with
  \<open>mid\<close> the events before its last one: a throw leaves the counters alone; a completion
  either counts a failure and ends with \<open>captchaDetected\<close>, or counts a success and ends
  with \<open>siteComplete\<close>.
\<close>

definition try_result ::
  "string \<Rightarrow> nat \<Rightarrow> nat \<Rightarrow> 'g SessionManager \<Rightarrow> error option \<Rightarrow> 'g SessionManager
   \<Rightarrow> event list \<Rightarrow> bool" where
  "try_result url current totalSites s r s' mid =
     (case r of
        Some e \<Rightarrow> emitted s' = emitted s @ mid
                  \<and> sitesSuccessful (stats s') = sitesSuccessful (stats s)
                  \<and> sitesFailed (stats s') = sitesFailed (stats s)
      | None \<Rightarrow> (emitted s' = emitted s @ mid @ [CaptchaDetected url]
                   \<and> sitesSuccessful (stats s') = sitesSuccessful (stats s)
                   \<and> sitesFailed (stats s') = sitesFailed (stats s) + 1)
                \<or> (\<exists>d info. emitted s' = emitted s @ mid
                                      @ [SiteComplete url d info current totalSites]
                      \<and> sitesSuccessful (stats s') = sitesSuccessful (stats s) + 1
                      \<and> sitesFailed (stats s') = sitesFailed (stats s)))"

text \<open>Steps that may emit events but leave the counters and the control fields alone.\<close>

definition calm :: "'g SessionManager \<Rightarrow> 'g SessionManager \<Rightarrow> bool" where
  "calm s s' = (same_control s s' \<and> site_counters s' = site_counters s)"

text \<open>
  What one run of the loop over the queue guarantees: \<open>loop_effect\<close> collects the facts
  about the session before and after.
\<close>

definition loop_effect ::
  "'g world \<Rightarrow> config \<Rightarrow> nat \<Rightarrow> 'g SessionManager \<Rightarrow> unit outcome \<Rightarrow> 'g SessionManager \<Rightarrow> bool" where
  "loop_effect w cfg n s r s' =
     (same_control s s'
      \<and> sitesVisited (stats s) \<le> sitesVisited (stats s')
      \<and> (counters_consistent (stats s) \<longrightarrow> counters_consistent (stats s'))
      \<and> (\<not> isPaused s \<and> startTime (stats s) \<noteq> None \<and> Config_get w \<noteq> None
           \<longrightarrow> r = Return ())
      \<and> (\<not> isPaused s \<and> \<not> shouldStop s \<and> startTime (stats s) \<noteq> None
           \<and> Config_get w \<noteq> None \<and> session_maxPages cfg \<le> 0
           \<and> session_maxDuration cfg \<le> 0
           \<longrightarrow> sitesVisited (stats s') = sitesVisited (stats s) + n))"

section \<open>An example scenario\<close>

text \<open>
  A configuration with the defaults of the program except that the warm-up searches are
  disabled, a sites file with two destinations, and a world over them in which the
  outcomes of navigation and of captcha detection are parameters. \<open>Math.random\<close> always
  returns one half, the clock advances one second per reading, and the browser launches.
\<close>

definition example_config :: config where
  "example_config =
     \<lparr>sites_categories = [''all''], sites_custom = [], sites_exclude = [],
      sites_maxSites = 0, sites_shuffleSites = True,
      behavior_searches = False, behavior_searchCount = 3, behavior_maxDepth = 2,
      behavior_clickLinks = True,
      session_maxPages = 0, session_maxDuration = 0, session_breakInterval = 0,
      breakDuration_min = 60, breakDuration_max = 300,
      timing_minWait = 5, timing_maxWait = 30\<rparr>"

definition example_sites :: sites_config where
  "example_sites =
     \<lparr>categories = [(''general'', [''https://a.example'', ''https://b.example''])],
      excludePatterns = None\<rparr>"

definition example_world :: "(nat \<Rightarrow> nat \<Rightarrow> error + int) \<Rightarrow> (nat \<Rightarrow> bool) \<Rightarrow> unit world" where
  "example_world nav captcha =
     \<lparr>Config_get = Some example_config,
      Math_random = (\<lambda>g. (1 / 2, g)),
      new_RegExp = (\<lambda>p. None),
      clock = (\<lambda>n. 1000 * int n),
      Sites_load = Inr example_sites,
      browser_launch = None,
      page_goto = nav,
      hasCaptcha = captcha,
      getPageInfo = (\<lambda>k. None),
      stayOnPage = (\<lambda>k. Inr \<lparr>stay_actions = [StayScroll 300, StayClick True],
                                 navigatedAway = False\<rparr>),
      performSearch = (\<lambda>i. Inr True),
      page_screenshot = Inr ''png'',
      process_uptime = 1\<rparr>"

text \<open>The session of the command line: constructed, then initialized.\<close>

definition initialized_session :: "unit world \<Rightarrow> unit SessionManager" where
  "initialized_session w = snd (initialize w (SessionManager_new () None))"

section \<open>Control protocol: WebSocketHandler._handleCommand\<close>

text \<open>
  What \<open>Client.getInfo()\<close> returns, without its two time stamps, and the handler with
  its attached session (\<open>None\<close> for \<open>null\<close>) and its connected clients.
\<close>

record client_info =
  client_id :: string
  messageCount :: nat
  subscriptions :: "string list"

record 'g WebSocketHandler =
  session :: "'g SessionManager option"
  clients :: "client_info list"

text \<open>
  The \<open>data\<close> of a response: \<open>null\<close>, a message, the status (session state, number of
  clients, uptime), the statistics, the configuration, a screenshot (the image and its
  MIME type), the URL navigated to, or the list of clients.
\<close>

datatype response_data =
    NullData
  | MessageData string
  | StatusData string nat real
  | StatsData stats_view
  | ConfigData config
  | ScreenshotData string string
  | UrlData string
  | ClientsData "client_info list"

record response =
  response_type :: string
  response_command :: string
  requestId :: "string option"
  success :: bool
  response_data :: response_data
  response_error :: "string option"

definition no_session_error :: error where
  "no_session_error = Error ''No session attached''"

text \<open>
  The \<open>switch\<close> of \<open>_handleCommand\<close> inside its \<open>try\<close>. \<open>url\<close> is \<open>data.url\<close> when
  the message has one. The result is the thrown error, or the values assigned to
  \<open>response.success\<close> and \<open>response.data\<close>; then the handler, whose session the command
  may have changed; then whether \<open>session.start()\<close> was called. That call is not
  awaited: its run is not part of handling the command. \<open>None\<close> stands for a command
  that is never answered. A navigation asked for by the \<open>goto\<close> command reads the
  outcomes \<open>page_goto 0\<close>.
\<close>

definition command_switch ::
  "'g world \<Rightarrow> 'g WebSocketHandler \<Rightarrow> string \<Rightarrow> string option
   \<Rightarrow> ((error + bool \<times> response_data) \<times> 'g WebSocketHandler \<times> bool) option" where
  "command_switch w h command url =
     (if command = ''start''
      then (case session h of
              None \<Rightarrow> Some (Inl no_session_error, h, False)
            | Some s \<Rightarrow>
                (case initialize w s of
                   (Throw e, s') \<Rightarrow> Some (Inl e, h\<lparr>session := Some s'\<rparr>, False)
                 | (Blocked, s') \<Rightarrow> None
                 | (Return b, s') \<Rightarrow>
                     Some (Inr (True, MessageData ''Session starting''),
                           h\<lparr>session := Some s'\<rparr>, True)))
      else if command = ''stop''
      then (case session h of
              None \<Rightarrow> Some (Inl no_session_error, h, False)
            | Some s \<Rightarrow>
                Some (Inr (True, MessageData ''Session stopped''),
                      h\<lparr>session := Some (stop w s)\<rparr>, False))
      else if command = ''pause''
      then (case session h of
              None \<Rightarrow> Some (Inl no_session_error, h, False)
            | Some s \<Rightarrow>
                (case pause s of
                   (paused, s') \<Rightarrow>
                     Some (Inr (paused,
                                MessageData (if paused then ''Session paused'' else ''Cannot pause'')),
                           h\<lparr>session := Some s'\<rparr>, False)))
      else if command = ''resume''
      then (case session h of
              None \<Rightarrow> Some (Inl no_session_error, h, False)
            | Some s \<Rightarrow>
                (case resume s of
                   (resumed, s') \<Rightarrow>
                     Some (Inr (resumed,
                                MessageData (if resumed then ''Session resumed''
                                             else ''Cannot resume'')),
                           h\<lparr>session := Some s'\<rparr>, False)))
      else if command = ''status''
      then Some (Inr (True,
                      StatusData (case session h of
                                    None \<Rightarrow> ''no-session''
                                  | Some s \<Rightarrow> SessionState_string (state s))
                        (length (clients h)) (process_uptime w)),
                 h, False)
      else if command = ''stats''
      then (case session h of
              None \<Rightarrow> Some (Inl no_session_error, h, False)
            | Some s \<Rightarrow>
                (case getStats w s of
                   (view, s') \<Rightarrow> Some (Inr (True, StatsData view), h\<lparr>session := Some s'\<rparr>, False)))
      else if command = ''config''
      then (case Config_get w of
              None \<Rightarrow> Some (Inl config_not_loaded, h, False)
            | Some cfg \<Rightarrow> Some (Inr (True, ConfigData cfg), h, False))
      else if command = ''screenshot''
      then (case session h of
              None \<Rightarrow> Some (Inl no_session_error, h, False)
            | Some s \<Rightarrow>
                (case screenshot w s of
                   Inl e \<Rightarrow> Some (Inl e, h, False)
                 | Inr img \<Rightarrow> Some (Inr (True, ScreenshotData img ''image/png''), h, False)))
      else if command = ''goto''
      then (case session h of
              None \<Rightarrow> Some (Inl no_session_error, h, False)
            | Some s \<Rightarrow>
                (case url of
                   None \<Rightarrow> Some (Inl (Error ''URL required''), h, False)
                 | Some u \<Rightarrow>
                     if u = [] then Some (Inl (Error ''URL required''), h, False)
                     else (case navigate w u 0 s of
                             (Some e, s') \<Rightarrow> Some (Inl e, h\<lparr>session := Some s'\<rparr>, False)
                           | (None, s') \<Rightarrow>
                               Some (Inr (True, UrlData u), h\<lparr>session := Some s'\<rparr>, False))))
      else if command = ''list_clients''
      then Some (Inr (True, ClientsData (clients h)), h, False)
      else Some (Inl (Error (''Unknown command: '' @ command)), h, False))"

text \<open>
  \<open>_handleCommand(client, command, data, requestId)\<close>: the message passed to
  \<open>client.send\<close>. The response starts as
  \<open>{ type: 'response', command, requestId, success: false, data: null }\<close>; a caught
  error sets \<open>success\<close> to false and \<open>error\<close> to its message.
\<close>

definition handleCommand ::
  "'g world \<Rightarrow> 'g WebSocketHandler \<Rightarrow> string \<Rightarrow> string option \<Rightarrow> string option
   \<Rightarrow> (response \<times> 'g WebSocketHandler \<times> bool) option" where
  "handleCommand w h command url rid =
     (case command_switch w h command url of
        None \<Rightarrow> None
      | Some (Inl e, h', started) \<Rightarrow>
          Some (\<lparr>response_type = ''response'', response_command = command, requestId = rid,
                 success = False, response_data = NullData,
                 response_error = Some (message e)\<rparr>, h', started)
      | Some (Inr (ok, d), h', started) \<Rightarrow>
          Some (\<lparr>response_type = ''response'', response_command = command, requestId = rid,
                 success = ok, response_data = d, response_error = None\<rparr>, h', started))"

section \<open>Properties of the pseudo-random source\<close>

lemma ToInt32_sint [simp]: "ToInt32 (sint w) = w"
  by (simp add: ToInt32_def)

lemma next_in_unit_interval: "in_unit_interval (fst (SeededRandom_next r))"
proof -
  have "unat (mulberry_mix (ToInt32 (rng_state r) + 0x6D2B79F5)) < 2 ^ LENGTH(32)"
    by (rule unsigned_less)
  then have "real (unat (mulberry_mix (ToInt32 (rng_state r) + 0x6D2B79F5))) < real (2 ^ LENGTH(32))"
    by (simp only: of_nat_less_iff)
  then show ?thesis
    by (simp add: SeededRandom_next_def in_unit_interval_def Let_def del: of_nat_unat)
qed

lemma draws_closed_form:
  "draws n r =
     map (\<lambda>k. real (unat (mulberry_mix (ToInt32 (rng_state r) + of_nat (Suc k) * 0x6D2B79F5)))
                / 4294967296) [0..<n]"
proof (induction n arbitrary: r)
  case 0
  show ?case by simp
next
  case (Suc n)
  let ?st = "ToInt32 (rng_state r) + 0x6D2B79F5"
  have step: "SeededRandom_next r =
      (real (unat (mulberry_mix ?st)) / 4294967296, r\<lparr>rng_state := sint ?st\<rparr>)"
    by (simp add: SeededRandom_next_def Let_def)
  have shift: "[0..<Suc n] = 0 # map Suc [0..<n]"
    by (simp add: upt_conv_Cons map_Suc_upt del: upt_Suc)
  show ?case
    unfolding draws.simps step shift
    by (simp add: Suc.IH algebra_simps del: upt_Suc)
qed

lemma draws_in_unit_interval: "list_all in_unit_interval (draws n r)"
proof (induction n arbitrary: r)
  case 0
  show ?case by simp
next
  case (Suc n)
  obtain x r' where nx: "SeededRandom_next r = (x, r')"
    by (cases "SeededRandom_next r")
  have "in_unit_interval x"
    using next_in_unit_interval [of r] nx by simp
  then show ?case
    using Suc.IH [of r'] nx by simp
qed

text \<open>
  C3. Two instances constructed with the same seed return the same sequence of draws:
  the draw with index \<open>k\<close> is \<open>output_at seed k\<close>, a function of the seed and the call
  index only (so it is also what \<open>reset()\<close> reproduces), and every draw lies in the
  half-open interval from 0 to 1.
\<close>

theorem SeededRandom_reproducible:
  "draws n (SeededRandom_new s) = map (output_at s) [0..<n]
   \<and> draws n (SeededRandom_reset (snd (SeededRandom_next (SeededRandom_new s))))
       = draws n (SeededRandom_new s)
   \<and> list_all in_unit_interval (draws n (SeededRandom_new s))"
proof -
  have a: "draws n (SeededRandom_new s) = map (output_at s) [0..<n]"
    unfolding draws_closed_form output_at_def by (simp add: SeededRandom_new_def)
  have "SeededRandom_reset (snd (SeededRandom_next (SeededRandom_new s))) = SeededRandom_new s"
    by (simp add: SeededRandom_reset_def SeededRandom_next_def SeededRandom_new_def Let_def)
  then show ?thesis
    using a draws_in_unit_interval [of n "SeededRandom_new s"] by simp
qed

section \<open>Properties of the distributions\<close>

lemma clamp_in_range:
  assumes "js_le mn mx" and "v \<noteq> NaN"
  shows "in_range mn mx (Math_max mn (Math_min mx v))"
  using assms
  by (cases mn; cases mx; cases v)
     (auto simp: in_range_def js_le_def Math_max_def Math_min_def)

lemma clamp_NaN: "Math_max mn (Math_min mx NaN) = NaN"
  by (simp add: Math_max_def Math_min_def)

lemma clamp_not_NaN:
  "mn \<noteq> NaN \<Longrightarrow> mx \<noteq> NaN \<Longrightarrow> (Math_max mn (Math_min mx v) = NaN) = (v = NaN)"
  by (auto simp: Math_max_def Math_min_def)


lemma gaussian_draw_result:
  assumes "gaussian_draw src g = Some r"
  shows "fst r \<noteq> Fin 0
         \<and> (\<exists>h. fst r = fst (src h) \<and> fst (snd r) = fst (src (snd (src h))))"
proof (rule gaussian_draw.raw_induct
    [where P = "\<lambda>src g r. fst r \<noteq> Fin 0
         \<and> (\<exists>h. fst r = fst (src h) \<and> fst (snd r) = fst (src (snd (src h))))",
     OF _ assms])
  fix f :: "'a source \<Rightarrow> 'a \<Rightarrow> (number \<times> number \<times> 'a) option"
  fix src g r
  assume IH: "\<And>src g r. f src g = Some r \<Longrightarrow> fst r \<noteq> Fin 0
         \<and> (\<exists>h. fst r = fst (src h) \<and> fst (snd r) = fst (src (snd (src h))))"
  assume eq: "(case src g of (u1, g1) \<Rightarrow>
        (case src g1 of (u2, g2) \<Rightarrow>
           if u1 = Fin 0 then f src g2 else Some (u1, u2, g2))) = Some r"
  obtain u1 g1 where s1: "src g = (u1, g1)" by (cases "src g")
  obtain u2 g2 where s2: "src g1 = (u2, g2)" by (cases "src g1")
  show "fst r \<noteq> Fin 0
         \<and> (\<exists>h. fst r = fst (src h) \<and> fst (snd r) = fst (src (snd (src h))))"
  proof (cases "u1 = Fin 0")
    case True
    then have "f src g2 = Some r"
      using eq s1 s2 by simp
    then show ?thesis by (rule IH)
  next
    case False
    then have r: "r = (u1, u2, g2)"
      using eq s1 s2 by simp
    have "fst r = fst (src g) \<and> fst (snd r) = fst (src (snd (src g)))"
      using r s1 s2 by simp
    then show ?thesis using False r by auto
  qed
qed

lemma gaussian_draw_unit:
  assumes "unit_draws src" and "gaussian_draw src g = Some (u1, u2, g')"
  shows "\<exists>a b. u1 = Fin a \<and> 0 < a \<and> a < 1 \<and> u2 = Fin b"
proof -
  from gaussian_draw_result [OF assms(2)]
  obtain h where n0: "u1 \<noteq> Fin 0" and u1: "u1 = fst (src h)"
    and u2: "u2 = fst (src (snd (src h)))" by auto
  from assms(1) obtain a where a: "fst (src h) = Fin a" "0 \<le> a" "a < 1"
    unfolding unit_draws_def by blast
  from assms(1) obtain b where b: "fst (src (snd (src h))) = Fin b"
    unfolding unit_draws_def by blast
  have "a \<noteq> 0" using n0 u1 a(1) by auto
  then show ?thesis using a b u1 u2 by auto
qed

lemma box_muller_finite:
  assumes "0 < a" and "a < 1"
  shows "js_times (Math_sqrt (js_times (Fin (- 2)) (Math_log (Fin a))))
                  (Math_cos (js_times (js_times (Fin 2) Math_PI) (Fin b)))
         = Fin (sqrt (- 2 * ln a) * cos (2 * pi * b))"
proof -
  have "ln a < 0" using assms by simp
  then have "\<not> (- 2 * ln a < 0)" by simp
  then show ?thesis using assms by (simp add: Math_PI_def)
qed

lemma gaussian_finite:
  assumes "unit_draws src" and "gaussian (Fin m) (Fin s) src g = Some (v, g')"
  shows "\<exists>z. v = Fin (z * s + m)"
proof -
  from assms(2) obtain u1 u2 where d: "gaussian_draw src g = Some (u1, u2, g')"
    by (auto simp: gaussian_def Let_def split: option.splits)
  from gaussian_draw_unit [OF assms(1) d]
  obtain a b where ab: "u1 = Fin a" "0 < a" "a < 1" "u2 = Fin b" by auto
  have "v = Fin (sqrt (- 2 * ln a) * cos (2 * pi * b) * s + m)"
    using assms(2) d ab(1,4) box_muller_finite [OF ab(2,3), of b]
    by (simp add: gaussian_def Let_def)
  then show ?thesis ..
qed

lemma gaussian_NaN_mean: "gaussian NaN sd src g = Some (v, g') \<Longrightarrow> v = NaN"
proof -
  have "js_plus x NaN = NaN" for x by (cases x) simp_all
  then show "gaussian NaN sd src g = Some (v, g') \<Longrightarrow> v = NaN"
    by (auto simp: gaussian_def Let_def split: option.splits)
qed

lemma gaussianBounded_loop_result:
  "gaussianBounded_loop mean sd mn mx src g attempts = Some (v, g')
   \<Longrightarrow> \<exists>h. gaussian mean sd src h = Some (v, g')"
proof (induction mean sd mn mx src g attempts rule: gaussianBounded_loop.induct)
  case (1 mean sd mn mx src g attempts)
  note unfold = gaussianBounded_loop.simps [of mean sd mn mx src g attempts]
  show ?case
  proof (cases "gaussian mean sd src g")
    case None
    with "1.prems" show ?thesis by (simp add: unfold)
  next
    case (Some p)
    obtain w h where p: "p = (w, h)" by (cases p)
    show ?thesis
    proof (cases "(js_lt w mn \<or> js_gt w mx) \<and> attempts + 1 < 100")
      case True
      then have "gaussianBounded_loop mean sd mn mx src h (attempts + 1) = Some (v, g')"
        using "1.prems" Some p by (simp add: unfold)
      then show ?thesis
        using "1.IH" [OF Some p [symmetric] True] by simp
    next
      case False
      then have "(w, h) = (v, g')"
        using "1.prems" Some p by (simp add: unfold split: if_splits)
      then show ?thesis using Some p by auto
    qed
  qed
qed

lemma gaussianBounded_sample:
  assumes "gaussianBounded mean sd mn mx src g = Some (v, g')"
  shows "\<exists>w h. gaussian mean sd src h = Some (w, g') \<and> v = Math_max mn (Math_min mx w)"
proof -
  obtain w where w: "gaussianBounded_loop mean sd mn mx src g 0 = Some (w, g')"
    and v: "v = Math_max mn (Math_min mx w)"
    using assms by (auto simp: gaussianBounded_def split: option.splits)
  from gaussianBounded_loop_result [OF w] v show ?thesis by blast
qed

lemma advance_0 [simp]: "advance nxt 0 g = g"
  by (simp add: advance_def)

lemma advance_add: "advance nxt (m + n) g = advance nxt m (advance nxt n g)"
  by (simp add: advance_def funpow_add)

lemma advance_2: "advance nxt 2 g = snd (nxt (snd (nxt g)))"
  by (simp add: advance_def eval_nat_numeral)

lemma gaussian_draw_unfold:
  "gaussian_draw src g =
     (if fst (src g) = Fin 0 then gaussian_draw src (advance src 2 g)
      else Some (fst (src g), fst (src (snd (src g))), advance src 2 g))"
  by (simp add: gaussian_draw.simps [of src g] advance_2 split: prod.splits)

lemma gaussian_draw_returns:
  "fst (src (advance src (2 * k) g)) \<noteq> Fin 0 \<Longrightarrow> gaussian_draw src g \<noteq> None"
proof (induction k arbitrary: g)
  case 0
  then have "fst (src g) \<noteq> Fin 0" by simp
  then show ?case
    by (simp add: gaussian_draw_unfold [of src g])
next
  case (Suc k)
  show ?case
  proof (cases "fst (src g) = Fin 0")
    case True
    have eq: "advance src (2 * Suc k) g = advance src (2 * k) (advance src 2 g)"
      using advance_add [of src "2 * k" 2 g] by (simp add: add.commute)
    have "fst (src (advance src (2 * k) (advance src 2 g))) \<noteq> Fin 0"
      using Suc.prems unfolding eq by assumption
    then have "gaussian_draw src (advance src 2 g) \<noteq> None"
      by (rule Suc.IH)
    then show ?thesis
      using True by (simp add: gaussian_draw_unfold [of src g])
  next
    case False
    then show ?thesis
      by (simp add: gaussian_draw_unfold [of src g])
  qed
qed

lemma gaussian_returns:
  "gaussian_draw src g \<noteq> None \<Longrightarrow> gaussian mean sd src g \<noteq> None"
  by (auto simp: gaussian_def Let_def split: option.splits)

lemma gaussianBounded_loop_returns:
  "(\<And>h. gaussian_draw src h \<noteq> None)
   \<Longrightarrow> gaussianBounded_loop mean sd mn mx src g attempts \<noteq> None"
proof (induction mean sd mn mx src g attempts rule: gaussianBounded_loop.induct)
  case (1 mean sd mn mx src g attempts)
  note unfold = gaussianBounded_loop.simps [of mean sd mn mx src g attempts]
  have "gaussian mean sd src g \<noteq> None"
    by (rule gaussian_returns) (rule "1.prems")
  then obtain v h where gv: "gaussian mean sd src g = Some (v, h)"
    by auto
  show ?case
  proof (cases "(js_lt v mn \<or> js_gt v mx) \<and> attempts + 1 < 100")
    case True
    have "gaussianBounded_loop mean sd mn mx src h (attempts + 1) \<noteq> None"
      using "1.IH" [OF gv refl True] "1.prems" by blast
    then show ?thesis using gv True by (simp add: unfold)
  next
    case False
    then show ?thesis using gv by (auto simp: unfold)
  qed
qed

lemma cos_quarter: "cos (2 * pi * (1 / 4)) = (0::real)"
proof -
  have "2 * pi * (1 / 4) = pi / 2" by simp
  then show ?thesis by (simp only: cos_pi_half)
qed

lemma quarter_draws: "unit_draws (\<lambda>g::unit. (Fin (1/4), g))"
  unfolding unit_draws_def by (intro allI exI [of _ "1/4"]) simp

lemma quarter_draw:
  "gaussian_draw (\<lambda>g::unit. (Fin (1/4), g)) h = Some (Fin (1/4), Fin (1/4), ())"
  by (simp add: gaussian_draw_unfold [of "\<lambda>g::unit. (Fin (1/4), g)" "()"])

lemma quarter_z:
  "js_times (Math_sqrt (js_times (Fin (- 2)) (Math_log (Fin (1/4)))))
            (Math_cos (js_times (js_times (Fin 2) Math_PI) (Fin (1/4)))) = Fin 0"
proof -
  have "(0::real) < 1/4" "(1/4::real) < 1" by simp_all
  from box_muller_finite [OF this, of "1/4"] show ?thesis
    by (simp only: cos_quarter mult_zero_right)
qed

lemma quarter_gaussian:
  "gaussian mean (Fin s) (\<lambda>g::unit. (Fin (1/4), g)) h = Some (js_plus (Fin 0) mean, ())"
  unfolding gaussian_def quarter_draw Let_def option.case prod.case quarter_z
  by simp

lemma quarter_bounded:
  "gaussianBounded mean (Fin s) mn mx (\<lambda>g::unit. (Fin (1/4), g)) ()
   = Some (Math_max mn (Math_min mx (js_plus (Fin 0) mean)), ())"
proof -
  have "\<And>h. gaussian_draw (\<lambda>g::unit. (Fin (1/4), g)) h \<noteq> None"
    by (simp add: quarter_draw)
  then have "gaussianBounded_loop mean (Fin s) mn mx (\<lambda>g::unit. (Fin (1/4), g)) () 0 \<noteq> None"
    by (rule gaussianBounded_loop_returns)
  then obtain w g' where
    w: "gaussianBounded_loop mean (Fin s) mn mx (\<lambda>g::unit. (Fin (1/4), g)) () 0 = Some (w, g')"
    by auto
  from gaussianBounded_loop_result [OF w] have "w = js_plus (Fin 0) mean"
    by (simp add: quarter_gaussian)
  with w show ?thesis by (simp add: gaussianBounded_def)
qed

lemma js_lt_NaN [simp]: "js_lt NaN b = False" "js_lt a NaN = False"
  by (cases b; simp) (cases a; simp)

text \<open>
  A draw outside the unit interval breaks the contract of a source, and the result shows
  it: for a source that always returns 2 the logarithm is positive, the square root is
  taken of a negative number, every sample is NaN and so is the result.
\<close>

lemma out_of_contract_gaussian:
  "gaussian mean sd (\<lambda>g::unit. (Fin 2, g)) h = Some (NaN, ())"
proof -
  have d: "gaussian_draw (\<lambda>g::unit. (Fin 2, g)) h = Some (Fin 2, Fin 2, ())"
    by (simp add: gaussian_draw_unfold [of "\<lambda>g::unit. (Fin 2, g)" "()"])
  have "(0::real) < ln 2" by simp
  then have "Math_sqrt (js_times (Fin (- 2)) (Math_log (Fin 2))) = NaN"
    by simp
  then show ?thesis
    unfolding gaussian_def d Let_def option.case prod.case by simp
qed

lemma gaussianBounded_out_of_contract:
  "gaussianBounded mean sd mn mx (\<lambda>g::unit. (Fin 2, g)) () = Some (NaN, ())"
  by (simp add: gaussianBounded_def out_of_contract_gaussian js_gt_def Math_max_def Math_min_def
      gaussianBounded_loop.simps [of mean sd mn mx "\<lambda>g::unit. (Fin 2, g)" "()" 0])

text \<open>
  C4 (as amended). When \<open>min <= max\<close> holds (so neither bound is NaN; the bounds may be
  infinite), every value that \<open>gaussianBounded\<close> returns is NaN or lies in the closed
  range from \<open>min\<close> to \<open>max\<close>, for every mean, standard deviation and source. When
  moreover the mean and the standard deviation are finite and every draw of the source is a
  finite number in the half-open unit interval, the value lies in the range (it is not
  NaN), and with a standard deviation of 0 it is the mean clamped into the range. The call
  returns whenever the source, from each of its states, yields a non-zero draw at some even
  position (the first draw of some resampling round).
\<close>

theorem gaussianBounded_clamped:
  assumes "js_le mn mx"
  shows "(\<forall>v g'. gaussianBounded mean sd mn mx src g = Some (v, g')
            \<longrightarrow> (v \<noteq> NaN \<longrightarrow> in_range mn mx v)
              \<and> (is_finite mean \<and> is_finite sd \<and> unit_draws src
                   \<longrightarrow> in_range mn mx v
                     \<and> (sd = Fin 0 \<longrightarrow> v = Math_max mn (Math_min mx mean))))
       \<and> ((\<forall>h. \<exists>k. fst (src (advance src (2 * k) h)) \<noteq> Fin 0)
            \<longrightarrow> gaussianBounded mean sd mn mx src g \<noteq> None)"
proof -
  have bounds: "mn \<noteq> NaN" "mx \<noteq> NaN"
    using assms by (simp_all add: js_le_def)
  have a: "(\<forall>h. \<exists>k. fst (src (advance src (2 * k) h)) \<noteq> Fin 0)
            \<Longrightarrow> gaussianBounded mean sd mn mx src g \<noteq> None"
  proof -
    assume h: "\<forall>h. \<exists>k. fst (src (advance src (2 * k) h)) \<noteq> Fin 0"
    have "\<And>h'. gaussian_draw src h' \<noteq> None"
    proof -
      fix h'
      from h obtain k where "fst (src (advance src (2 * k) h')) \<noteq> Fin 0" by blast
      then show "gaussian_draw src h' \<noteq> None" by (rule gaussian_draw_returns)
    qed
    then have "gaussianBounded_loop mean sd mn mx src g 0 \<noteq> None"
      by (rule gaussianBounded_loop_returns)
    then show ?thesis
      by (auto simp: gaussianBounded_def)
  qed
  have b: "\<forall>v g'. gaussianBounded mean sd mn mx src g = Some (v, g')
            \<longrightarrow> (v \<noteq> NaN \<longrightarrow> in_range mn mx v)
              \<and> (is_finite mean \<and> is_finite sd \<and> unit_draws src
                   \<longrightarrow> in_range mn mx v
                     \<and> (sd = Fin 0 \<longrightarrow> v = Math_max mn (Math_min mx mean)))"
  proof (intro allI impI)
    fix v g'
    assume r: "gaussianBounded mean sd mn mx src g = Some (v, g')"
    from gaussianBounded_sample [OF r]
    obtain w h where w: "gaussian mean sd src h = Some (w, g')"
      and v: "v = Math_max mn (Math_min mx w)" by blast
    have nan: "(v = NaN) = (w = NaN)"
      unfolding v using bounds by (rule clamp_not_NaN)
    have 1: "v \<noteq> NaN \<longrightarrow> in_range mn mx v"
      unfolding v using clamp_in_range [OF assms, of w] nan v by simp
    have 2: "is_finite mean \<and> is_finite sd \<and> unit_draws src
               \<longrightarrow> in_range mn mx v \<and> (sd = Fin 0 \<longrightarrow> v = Math_max mn (Math_min mx mean))"
    proof
      assume f: "is_finite mean \<and> is_finite sd \<and> unit_draws src"
      then obtain m s where ms: "mean = Fin m" "sd = Fin s"
        by (auto simp: is_finite_def split: number.splits)
      from f have u: "unit_draws src" by simp
      from gaussian_finite [OF u w [unfolded ms]]
      obtain z where z: "w = Fin (z * s + m)" ..
      then have "v \<noteq> NaN" using nan by simp
      with 1 have "in_range mn mx v" by simp
      moreover have "sd = Fin 0 \<longrightarrow> v = Math_max mn (Math_min mx mean)"
        using z ms v by simp
      ultimately show "in_range mn mx v \<and> (sd = Fin 0 \<longrightarrow> v = Math_max mn (Math_min mx mean))"
        by simp
    qed
    from 1 2 show "(v \<noteq> NaN \<longrightarrow> in_range mn mx v)
              \<and> (is_finite mean \<and> is_finite sd \<and> unit_draws src
                   \<longrightarrow> in_range mn mx v
                     \<and> (sd = Fin 0 \<longrightarrow> v = Math_max mn (Math_min mx mean)))"
      by (rule conjI)
  qed
  show ?thesis
    using a b by (intro conjI impI) assumption+
qed

theorem gaussianBounded_clamped_witness:
  "gaussianBounded (Fin 10) (Fin 0) (Fin 0) (Fin 5) (\<lambda>g::unit. (Fin (1/4), g)) () = Some (Fin 5, ())"
proof -
  have le: "js_le (Fin 0) (Fin 5)" by (simp add: js_le_def)
  have src: "\<forall>h. \<exists>k. fst ((\<lambda>g::unit. (Fin (1/4), g))
                 (advance (\<lambda>g::unit. (Fin (1/4), g)) (2 * k) h)) \<noteq> Fin 0"
    by simp
  have fin: "is_finite (Fin 10) \<and> is_finite (Fin 0) \<and> unit_draws (\<lambda>g::unit. (Fin (1/4), g))"
    by (simp add: is_finite_def quarter_draws)
  note inst = gaussianBounded_clamped [OF le, of "Fin 10" "Fin 0" "\<lambda>g::unit. (Fin (1/4), g)" "()"]
  have 1: "\<forall>v g'. gaussianBounded (Fin 10) (Fin 0) (Fin 0) (Fin 5) (\<lambda>g::unit. (Fin (1/4), g)) ()
                    = Some (v, g') \<longrightarrow> v = Math_max (Fin 0) (Math_min (Fin 5) (Fin 10))"
    using inst fin by blast
  have 2: "gaussianBounded (Fin 10) (Fin 0) (Fin 0) (Fin 5) (\<lambda>g::unit. (Fin (1/4), g)) () \<noteq> None"
    using inst src by blast
  from 2 obtain v g' where
    "gaussianBounded (Fin 10) (Fin 0) (Fin 0) (Fin 5) (\<lambda>g::unit. (Fin (1/4), g)) () = Some (v, g')"
    by auto
  with 1 show ?thesis by (auto simp: Math_max_def Math_min_def)
qed

text \<open>
  C4 as stated fails in two ways. With \<open>min > max\<close> the range is empty: for \<open>min = 5\<close>
  and \<open>max = 3\<close> the loop runs its 100 attempts and the final clamp returns 5. With a NaN
  mean every sample is NaN, both comparisons of the loop test are false, and the clamp
  returns NaN, which lies in no range.
\<close>

theorem gaussianBounded_counterexample:
  "gaussianBounded (Fin 0) (Fin 1) (Fin 5) (Fin 3) (\<lambda>g::unit. (Fin (1/4), g)) () = Some (Fin 5, ())
   \<and> \<not> in_range (Fin 5) (Fin 3) (Fin 5)
   \<and> gaussianBounded NaN (Fin 1) (Fin 0) (Fin 5) (\<lambda>g::unit. (Fin (1/4), g)) () = Some (NaN, ())
   \<and> \<not> in_range (Fin 0) (Fin 5) NaN"
  by (simp add: quarter_bounded Math_max_def Math_min_def in_range_def js_le_def)

section \<open>Properties of the scroll-pattern generator\<close>
























lemma half_source: "unit_source (\<lambda>g::unit. (1/2, g))"
  by (simp add: unit_source_def)




section \<open>Properties of the site queue construction\<close>


lemma set_add_all_distinct: "distinct seen \<Longrightarrow> distinct (set_add_all seen xs)"
  by (induction xs arbitrary: seen) auto

lemma dedupe_distinct: "distinct (dedupe xs)"
  by (simp add: dedupe_def set_add_all_distinct)

lemma shuffle_index:
  assumes "0 \<le> u" and "u < 1"
  shows "nat \<lfloor>u * real (Suc i)\<rfloor> \<le> i"
proof -
  have "u * real (Suc i) < real (Suc i)" using assms by simp
  then have "\<lfloor>u * real (Suc i)\<rfloor> < int (Suc i)" by (simp only: floor_less_iff of_int_of_nat_eq)
  then show ?thesis by linarith
qed

lemma shuffle_loop_mset:
  assumes "unit_source nxt"
  shows "i < length xs \<Longrightarrow> mset (fst (shuffle_loop i nxt xs g)) = mset xs"
proof (induction i arbitrary: xs g)
  case 0
  show ?case by simp
next
  case (Suc i)
  obtain u g' where ng: "nxt g = (u, g')" by (cases "nxt g")
  have u: "0 \<le> u" "u < 1"
    using assms ng unfolding unit_source_def by (metis fst_conv)+
  let ?j = "nat \<lfloor>u * real (Suc i + 1)\<rfloor>"
  have j: "?j \<le> Suc i" using shuffle_index [OF u, of "Suc i"] by simp
  let ?ys = "xs[Suc i := xs ! ?j, ?j := xs ! Suc i]"
  have "mset ?ys = mset xs"
    using mset_swap [of ?j xs "Suc i"] j Suc.prems by simp
  moreover have "i < length ?ys" using Suc.prems by simp
  ultimately have "mset (fst (shuffle_loop i nxt ?ys g')) = mset xs"
    using Suc.IH [of ?ys g'] by simp
  then show ?case using ng by (simp add: Let_def)
qed

lemma shuffle_mset:
  assumes "unit_source nxt"
  shows "mset (fst (shuffle xs nxt g)) = mset xs"
proof (cases xs)
  case Nil
  then show ?thesis by (simp add: shuffle_def)
next
  case (Cons a list)
  then have "length xs - 1 < length xs" by simp
  then show ?thesis
    unfolding shuffle_def by (rule shuffle_loop_mset [OF assms])
qed

lemma shuffle_distinct:
  assumes "unit_source nxt" and "distinct xs"
  shows "distinct (fst (shuffle xs nxt g))"
  using shuffle_mset [OF assms(1), of xs g] assms(2)
  by (metis mset_eq_imp_distinct_iff)

lemma collect_sites_distinct: "distinct (collect_sites cfg cats options)"
  by (simp add: collect_sites_def Let_def dedupe_distinct)

lemma apply_exclude_patterns_distinct:
  "apply_exclude_patterns compile cfg sites = Inr sites' \<Longrightarrow> distinct sites
   \<Longrightarrow> distinct sites'"
  by (auto simp: apply_exclude_patterns_def split: option.splits sum.splits)

lemma shuffle_and_limit_distinct:
  assumes "unit_source nxt" and "distinct sites"
  shows "distinct (fst (shuffle_and_limit options nxt g sites))"
proof -
  obtain shuffled g' where sh: "(if shuffle_option options \<noteq> Some False
            then shuffle sites nxt g else (sites, g)) = (shuffled, g')"
    by (cases "if shuffle_option options \<noteq> Some False then shuffle sites nxt g else (sites, g)")
  have "distinct shuffled"
    using sh shuffle_distinct [OF assms, of g] assms(2) by (auto split: if_splits)
  then show ?thesis
    unfolding shuffle_and_limit_def sh by (simp split: option.splits)
qed

lemma shuffle_and_limit_length:
  assumes "maxSites options = Some n" and "0 < n"
  shows "length (fst (shuffle_and_limit options nxt g sites)) \<le> nat n"
  using assms by (simp add: shuffle_and_limit_def split: prod.splits)

lemma compile_all_valid:
  "list_all (\<lambda>p. compile p \<noteq> None) ps \<Longrightarrow> \<exists>ts. compile_all compile ps = Inr ts"
  by (induction ps) auto

text \<open>
  C5. The list that \<open>getSites\<close> returns has no duplicate entries, so a URL that occurs
  in two selected categories, or twice in one, occurs once in the result; and when
  \<open>maxSites\<close> is positive the list has at most \<open>maxSites\<close> entries. This holds for
  every loaded configuration, category selection and options, with \<open>Math.random\<close>
  drawing from the unit interval. The call returns a list whenever the configuration is
  loaded and its exclude patterns are valid regular expressions.
\<close>

theorem getSites_distinct_and_capped:
  assumes "unit_source nxt"
  shows "(\<forall>sites g'. getSites sites_field cats options compile nxt g = Inr (sites, g')
            \<longrightarrow> distinct sites
                \<and> (\<forall>n. maxSites options = Some n \<and> 0 < n \<longrightarrow> length sites \<le> nat n))
       \<and> (\<forall>cfg. sites_field = Some cfg
              \<and> (case excludePatterns cfg of None \<Rightarrow> True
                  | Some ps \<Rightarrow> list_all (\<lambda>p. compile p \<noteq> None) ps)
            \<longrightarrow> (\<exists>sites g'. getSites sites_field cats options compile nxt g = Inr (sites, g')))"
proof (intro conjI allI impI)
  fix sites g'
  assume r: "getSites sites_field cats options compile nxt g = Inr (sites, g')"
  then obtain cfg sites4 where cfg: "sites_field = Some cfg"
    and ap: "apply_exclude_patterns compile cfg (collect_sites cfg cats options) = Inr sites4"
    and fin: "shuffle_and_limit options nxt g sites4 = (sites, g')"
    by (auto simp: getSites_def split: option.splits sum.splits)
  have d4: "distinct sites4"
    using apply_exclude_patterns_distinct [OF ap collect_sites_distinct] .
  show "distinct sites"
    using shuffle_and_limit_distinct [OF assms d4, of options g] fin by simp
  fix n
  assume "maxSites options = Some n \<and> 0 < n"
  then show "length sites \<le> nat n"
    using shuffle_and_limit_length [of options n nxt g sites4] fin by simp
next
  fix cfg
  assume a: "sites_field = Some cfg
              \<and> (case excludePatterns cfg of None \<Rightarrow> True
                  | Some ps \<Rightarrow> list_all (\<lambda>p. compile p \<noteq> None) ps)"
  have "\<exists>s4. apply_exclude_patterns compile cfg (collect_sites cfg cats options) = Inr s4"
  proof (cases "excludePatterns cfg")
    case None
    then show ?thesis by (simp add: apply_exclude_patterns_def)
  next
    case (Some ps)
    with a have "list_all (\<lambda>p. compile p \<noteq> None) ps" by simp
    from compile_all_valid [OF this] obtain ts where "compile_all compile ps = Inr ts" ..
    then show ?thesis using Some by (simp add: apply_exclude_patterns_def)
  qed
  then obtain s4 where "apply_exclude_patterns compile cfg (collect_sites cfg cats options) = Inr s4" ..
  then show "\<exists>sites g'. getSites sites_field cats options compile nxt g = Inr (sites, g')"
    using a by (cases "shuffle_and_limit options nxt g s4") (simp add: getSites_def)
qed

theorem getSites_distinct_and_capped_witness:
  "getSites (Some \<lparr>categories = [(''news'', [''https://a.example'', ''https://b.example'']),
                                   (''tech'', [''https://b.example'', ''https://c.example'',
                                               ''https://c.example''])],
                     excludePatterns = None\<rparr>)
             [''news'', ''tech'']
             \<lparr>custom = None, exclude = None, maxSites = Some 2, shuffle_option = None\<rparr>
             (\<lambda>p. None) (\<lambda>g::unit. (1/2, g)) ()
     = Inr ([''https://a.example'', ''https://c.example''], ())
   \<and> distinct [''https://a.example'', ''https://c.example'']
   \<and> length [''https://a.example'', ''https://c.example''] \<le> nat 2"
proof -
  have run: "getSites (Some \<lparr>categories = [(''news'', [''https://a.example'', ''https://b.example'']),
                                   (''tech'', [''https://b.example'', ''https://c.example'',
                                               ''https://c.example''])],
                     excludePatterns = None\<rparr>)
             [''news'', ''tech'']
             \<lparr>custom = None, exclude = None, maxSites = Some 2, shuffle_option = None\<rparr>
             (\<lambda>p. None) (\<lambda>g::unit. (1/2, g)) ()
     = Inr ([''https://a.example'', ''https://c.example''], ())"
    by (simp add: getSites_def collect_sites_def dedupe_def apply_exclude_patterns_def
        shuffle_and_limit_def shuffle_def Let_def)
  have "\<forall>sites g'. getSites (Some \<lparr>categories = [(''news'', [''https://a.example'', ''https://b.example'']),
                                   (''tech'', [''https://b.example'', ''https://c.example'',
                                               ''https://c.example''])],
                     excludePatterns = None\<rparr>)
             [''news'', ''tech'']
             \<lparr>custom = None, exclude = None, maxSites = Some 2, shuffle_option = None\<rparr>
             (\<lambda>p. None) (\<lambda>g::unit. (1/2, g)) () = Inr (sites, g')
        \<longrightarrow> distinct sites \<and> (\<forall>n. Some (2::int) = Some n \<and> 0 < n \<longrightarrow> length sites \<le> nat n)"
    using getSites_distinct_and_capped [OF half_source, of
        "Some \<lparr>categories = [(''news'', [''https://a.example'', ''https://b.example'']),
                                   (''tech'', [''https://b.example'', ''https://c.example'',
                                               ''https://c.example''])],
                     excludePatterns = None\<rparr>"
        "[''news'', ''tech'']"
        "\<lparr>custom = None, exclude = None, maxSites = Some 2, shuffle_option = None\<rparr>"
        "\<lambda>p. None" "()"]
    by simp
  with run show ?thesis by simp
qed

section \<open>Properties of a site visit\<close>

lemma same_control_refl [simp]: "same_control s s"
  by (simp add: same_control_def)

lemma same_control_trans: "same_control a b \<Longrightarrow> same_control b c \<Longrightarrow> same_control a c"
  by (simp add: same_control_def)

lemma quiet_refl [simp]: "quiet s s"
  by (simp add: quiet_def)

lemma quiet_trans: "quiet a b \<Longrightarrow> quiet b c \<Longrightarrow> quiet a c"
  by (auto simp: quiet_def intro: same_control_trans)

lemma Date_now_quiet: "Date_now w s = (t, s') \<Longrightarrow> quiet s s'"
  by (auto simp: Date_now_def quiet_def same_control_def site_counters_def)

lemma sleep_quiet: "quiet s (sleep ms s)"
  by (simp add: sleep_def quiet_def same_control_def site_counters_def)

lemma push_error_quiet: "quiet s (push_error ty url msg w s)"
  by (simp add: push_error_def Date_now_def quiet_def same_control_def site_counters_def)

lemma random_bool_quiet: "random_bool p w s = (b, s') \<Longrightarrow> quiet s s'"
  by (auto simp: random_bool_def quiet_def same_control_def site_counters_def split: prod.splits)

lemma random_int_quiet: "random_int mn mx w s = (v, s') \<Longrightarrow> quiet s s'"
  by (auto simp: random_int_def quiet_def same_control_def site_counters_def split: prod.splits)

lemma fold_sleep_quiet: "quiet s (fold sleep ds s)"
proof (induction ds arbitrary: s)
  case Nil
  show ?case by simp
next
  case (Cons d ds)
  show ?case
    using quiet_trans [OF sleep_quiet [of s d] Cons.IH [of "sleep d s"]] by simp
qed

lemma handle_browser_events_effect:
  "handle_browser_events w evs s = (r, s')
   \<Longrightarrow> same_control s s' \<and> site_counters s' = site_counters s
       \<and> (\<exists>mid. emitted s' = emitted s @ mid \<and> list_all is_pageVisited mid)"
proof (induction w evs s rule: handle_browser_events.induct)
  case (1 w s)
  then show ?case by simp
next
  case (2 w url status evs s)
  then show ?case by simp
next
  case (3 w url status attempt evs s)
  from 3 obtain mid where
    "same_control (emit (PageVisited url status) s) s'"
    "site_counters s' = site_counters (emit (PageVisited url status) s)"
    "emitted s' = emitted (emit (PageVisited url status) s) @ mid" "list_all is_pageVisited mid"
    by auto
  then show ?case
    by (auto simp: emit_def same_control_def site_counters_def
        intro!: exI [of _ "PageVisited url status # mid"])
next
  case (4 w url e evs s)
  from 4 obtain mid where
    "same_control (push_error ''navigation'' (Some url) (message e) w s) s'"
    "site_counters s' = site_counters (push_error ''navigation'' (Some url) (message e) w s)"
    "emitted s' = emitted (push_error ''navigation'' (Some url) (message e) w s) @ mid"
    "list_all is_pageVisited mid"
    by auto
  then show ?case
    using push_error_quiet [of s "''navigation''" "Some url" "message e" w]
    by (auto simp: quiet_def intro: same_control_trans)
next
  case (5 w url evs s)
  then show ?case by auto
qed

lemma navigate_effect:
  assumes "navigate w url current s = (r, s')"
  shows "same_control s s' \<and> site_counters s' = site_counters s
       \<and> (\<exists>mid. emitted s' = emitted s @ mid \<and> list_all is_pageVisited mid)"
proof (cases "browser s")
  case None
  with assms show ?thesis by (auto simp: navigate_def)
next
  case (Some b)
  obtain res delays evs where g:
    "goto (Config_get w) (page_goto w current) b url \<lparr>retries = None\<rparr> = (res, delays, evs)"
    by (cases "goto (Config_get w) (page_goto w current) b url \<lparr>retries = None\<rparr>")
  obtain r1 s1 where h: "handle_browser_events w evs (fold sleep delays s) = (r1, s1)"
    by (cases "handle_browser_events w evs (fold sleep delays s)")
  have s1: "s' = s1"
    using assms Some g h by (auto simp: navigate_def split: option.splits sum.splits)
  from handle_browser_events_effect [OF h] fold_sleep_quiet [of s delays]
  show ?thesis
    unfolding s1 by (auto simp: quiet_def intro: same_control_trans)
qed

lemma followLinks_loop_quiet:
  "followLinks_loop w cfg current depth s = (r, s') \<Longrightarrow> quiet s s'"
proof (induction w cfg current depth s rule: followLinks_loop.induct)
  case (1 w cfg current depth s)
  note unfold = followLinks_loop.simps [of w cfg current depth s]
  show ?case
  proof (cases "int depth \<ge> behavior_maxDepth cfg \<or> \<not> behavior_clickLinks cfg")
    case True
    with "1.prems" show ?thesis by (auto simp: unfold split: if_splits)
  next
    case False
    obtain shouldFollow s1 where rb: "random_bool (0.3 / real depth) w s = (shouldFollow, s1)"
      by (cases "random_bool (0.3 / real depth) w s")
    note q1 = random_bool_quiet [OF rb]
    show ?thesis
    proof (cases shouldFollow)
      case nf: False
      with "1.prems" False rb q1 show ?thesis by (auto simp: unfold)
    next
      case t: True
      show ?thesis
      proof (cases "stayOnPage w (FollowStay current depth)")
        case (Inl e)
        with "1.prems" False rb t q1 show ?thesis by (auto simp: unfold)
      next
        case (Inr stayResult)
        let ?s2 = "s1\<lparr>stats := (stats s1)\<lparr>pagesViewed := pagesViewed (stats s1) + 1\<rparr>\<rparr>"
        have q2: "quiet s ?s2"
          using q1 by (simp add: quiet_def same_control_def site_counters_def)
        show ?thesis
        proof (cases "navigatedAway stayResult")
          case True
          then have "followLinks_loop w cfg current (depth + 1) ?s2 = (r, s')"
            using "1.prems" False rb t Inr by (auto simp: unfold Let_def)
          moreover have "\<not> behavior_maxDepth cfg \<le> int depth" "\<not> \<not> behavior_clickLinks cfg"
            "\<not> \<not> shouldFollow"
            using False t by auto
          ultimately have "quiet ?s2 s'"
            using "1.IH" [OF _ _ rb [symmetric] _ Inr refl True] by blast
          with q2 show ?thesis by (rule quiet_trans)
        next
          case nn: False
          with "1.prems" False rb t Inr q2 show ?thesis by (auto simp: unfold Let_def)
        qed
      qed
    qed
  qed
qed

lemma followLinks_quiet: "followLinks w current depth s = (r, s') \<Longrightarrow> quiet s s'"
  by (auto simp: followLinks_def followLinks_loop_quiet split: option.splits)


lemma follow_after_stay_quiet:
  assumes "follow_after_stay w current stayResult s = (r, s')"
  shows "quiet s s'"
proof (cases "navigatedAway stayResult")
  case True
  with assms have "followLinks w current 1
      (s\<lparr>stats := (stats s)\<lparr>pagesViewed := pagesViewed (stats s) + 1\<rparr>\<rparr>) = (r, s')"
    by (simp add: follow_after_stay_def)
  from followLinks_quiet [OF this] show ?thesis
    by (simp add: quiet_def same_control_def site_counters_def)
next
  case False
  with assms show ?thesis by (simp add: follow_after_stay_def)
qed

lemma account_actions_keeps:
  "sitesVisited (account_actions as st) = sitesVisited st
   \<and> sitesSuccessful (account_actions as st) = sitesSuccessful st
   \<and> sitesFailed (account_actions as st) = sitesFailed st
   \<and> startTime (account_actions as st) = startTime st"
  by (induction as st rule: account_actions.induct) simp_all

lemma visit_try_effect:
  assumes "visit_try w url current totalSites t0 s = (r, s')"
  shows "same_control s s' \<and> sitesVisited (stats s') = sitesVisited (stats s)
       \<and> (\<exists>mid. list_all is_pageVisited mid \<and> try_result url current totalSites s r s' mid)"
proof -
  obtain rn s1 where nav: "navigate w url current s = (rn, s1)"
    by (cases "navigate w url current s")
  from navigate_effect [OF nav] obtain mid where
    c1: "same_control s s1" and n1: "site_counters s1 = site_counters s"
    and e1: "emitted s1 = emitted s @ mid" and pv: "list_all is_pageVisited mid"
    by blast
  show ?thesis
  proof (cases rn)
    case (Some e)
    then have "r = Some e" "s' = s1"
      using assms nav by (simp_all add: visit_try_def)
    then show ?thesis
      using c1 n1 e1 pv by (auto simp: try_result_def site_counters_def)
  next
    case None
    let ?s2 = "s1\<lparr>stats := (stats s1)\<lparr>pagesViewed := pagesViewed (stats s1) + 1,
                                         visitedUrls := visitedUrls (stats s1) @ [url]\<rparr>\<rparr>"
    have c2: "same_control s ?s2" and n2: "site_counters ?s2 = site_counters s"
      and e2: "emitted ?s2 = emitted s @ mid"
      using c1 n1 e1 by (simp_all add: same_control_def site_counters_def)
    show ?thesis
    proof (cases "actions_set ?s2")
      case False
      then have "r = Some null_actions_error" "s' = ?s2"
        using assms nav None by (simp_all add: visit_try_def Let_def)
      then show ?thesis
        using c2 n2 e2 pv by (auto simp: try_result_def site_counters_def)
    next
      case act: True
      show ?thesis
      proof (cases "hasCaptcha w current")
        case True
        then have "r = None"
          "s' = emit (CaptchaDetected url)
                  (?s2\<lparr>stats := (stats ?s2)\<lparr>sitesFailed := sitesFailed (stats ?s2) + 1\<rparr>\<rparr>)"
          using assms nav None act by (simp_all add: visit_try_def Let_def)
        then show ?thesis
          using c2 n2 e2 pv
          by (auto simp: try_result_def site_counters_def emit_def same_control_def)
      next
        case nc: False
        show ?thesis
        proof (cases "stayOnPage w (SiteStay current)")
          case (Inl e)
          then have "r = Some e" "s' = ?s2"
            using assms nav None act nc by (simp_all add: visit_try_def Let_def)
          then show ?thesis
            using c2 n2 e2 pv by (auto simp: try_result_def site_counters_def)
        next
          case (Inr stayResult)
          let ?s3 = "?s2\<lparr>stats := account_actions (stay_actions stayResult) (stats ?s2)\<rparr>"
          have c3: "same_control s ?s3" and n3: "site_counters ?s3 = site_counters s"
            and e3: "emitted ?s3 = emitted s @ mid"
            using c2 n2 e2 account_actions_keeps [of "stay_actions stayResult" "stats ?s2"]
            by (simp_all add: same_control_def site_counters_def)
          obtain rf s4 where fl: "follow_after_stay w current stayResult ?s3 = (rf, s4)"
            by (cases "follow_after_stay w current stayResult ?s3")
          have q4: "quiet ?s3 s4"
            by (rule follow_after_stay_quiet [OF fl])
          have c4: "same_control s s4" and n4: "site_counters s4 = site_counters s"
            and e4: "emitted s4 = emitted s @ mid"
            using q4 c3 n3 e3 by (auto simp: quiet_def intro: same_control_trans)
          have body: "visit_try w url current totalSites t0 s =
              (case (rf, s4) of
                 (Some e, s4) \<Rightarrow> (Some e, s4)
               | (None, s4) \<Rightarrow>
                   (case Date_now w s4 of
                      (t1, s5) \<Rightarrow>
                        (None, emit (SiteComplete url (t1 - t0) (getPageInfo w current)
                                       current totalSites)
                                 (s5\<lparr>stats := (stats s5)
                                     \<lparr>sitesSuccessful := sitesSuccessful (stats s5) + 1\<rparr>\<rparr>))))"
            using nav None act nc Inr fl
            by (simp add: visit_try_def Let_def)
          show ?thesis
          proof (cases rf)
            case (Some e)
            then have "r = Some e" "s' = s4"
              using assms body by simp_all
            then show ?thesis
              using c4 n4 e4 pv by (auto simp: try_result_def site_counters_def)
          next
            case fin: None
            obtain t1 s5 where dn: "Date_now w s4 = (t1, s5)" by (cases "Date_now w s4")
            have q5: "quiet s4 s5" using Date_now_quiet [OF dn] .
            have "r = None"
              "s' = emit (SiteComplete url (t1 - t0) (getPageInfo w current) current totalSites)
                      (s5\<lparr>stats := (stats s5)\<lparr>sitesSuccessful := sitesSuccessful (stats s5) + 1\<rparr>\<rparr>)"
              using assms body fin dn by simp_all
            then show ?thesis
              using c4 n4 e4 pv q5
              by (auto simp: try_result_def site_counters_def emit_def same_control_def quiet_def)
          qed
        qed
      qed
    qed
  qed
qed


lemma visitSite_effect:
  "\<exists>mid final.
     emitted (visitSite w url current totalSites s)
       = emitted s @ SiteStart url current totalSites # mid @ [final]
     \<and> list_all is_pageVisited mid
     \<and> ((is_siteComplete final
          \<and> sitesSuccessful (stats (visitSite w url current totalSites s))
              = sitesSuccessful (stats s) + 1
          \<and> sitesFailed (stats (visitSite w url current totalSites s)) = sitesFailed (stats s))
        \<or> ((is_siteFailed final \<or> final = CaptchaDetected url)
          \<and> sitesSuccessful (stats (visitSite w url current totalSites s))
              = sitesSuccessful (stats s)
          \<and> sitesFailed (stats (visitSite w url current totalSites s))
              = sitesFailed (stats s) + 1))
     \<and> same_control s (visitSite w url current totalSites s)
     \<and> sitesVisited (stats (visitSite w url current totalSites s)) = sitesVisited (stats s) + 1"
proof -
  obtain t0 s0 where dn: "Date_now w s = (t0, s0)" by (cases "Date_now w s")
  have q0: "quiet s s0" using Date_now_quiet [OF dn] .
  let ?s1 = "emit (SiteStart url current totalSites)
               (s0\<lparr>stats := (stats s0)\<lparr>sitesVisited := sitesVisited (stats s0) + 1\<rparr>\<rparr>)"
  have c1: "same_control s ?s1"
    and e1: "emitted ?s1 = emitted s @ [SiteStart url current totalSites]"
    and v1: "sitesVisited (stats ?s1) = sitesVisited (stats s) + 1"
    and n1: "sitesSuccessful (stats ?s1) = sitesSuccessful (stats s)"
            "sitesFailed (stats ?s1) = sitesFailed (stats s)"
    using q0 by (simp_all add: quiet_def emit_def same_control_def site_counters_def)
  obtain r s2 where vt: "visit_try w url current totalSites t0 ?s1 = (r, s2)"
    by (cases "visit_try w url current totalSites t0 ?s1")
  from visit_try_effect [OF vt] obtain mid where
    c2: "same_control ?s1 s2" and v2: "sitesVisited (stats s2) = sitesVisited (stats ?s1)"
    and pv: "list_all is_pageVisited mid"
    and tr: "try_result url current totalSites ?s1 r s2 mid"
    by blast
  show ?thesis
  proof (cases r)
    case None
    then have res: "visitSite w url current totalSites s = s2"
      using dn vt by (simp add: visitSite_def Let_def)
    from tr None consider
      (captcha) "emitted s2 = emitted ?s1 @ mid @ [CaptchaDetected url]"
        "sitesSuccessful (stats s2) = sitesSuccessful (stats ?s1)"
        "sitesFailed (stats s2) = sitesFailed (stats ?s1) + 1"
      | (complete) d info where
        "emitted s2 = emitted ?s1 @ mid @ [SiteComplete url d info current totalSites]"
        "sitesSuccessful (stats s2) = sitesSuccessful (stats ?s1) + 1"
        "sitesFailed (stats s2) = sitesFailed (stats ?s1)"
      by (auto simp: try_result_def)
    then show ?thesis
    proof cases
      case captcha
      show ?thesis
        unfolding res
        apply (rule exI [of _ mid], rule exI [of _ "CaptchaDetected url"])
        using captcha e1 v1 v2 n1 pv same_control_trans [OF c1 c2] by simp
    next
      case complete
      show ?thesis
        unfolding res
        apply (rule exI [of _ mid], rule exI [of _ "SiteComplete url d info current totalSites"])
        using complete e1 v1 v2 n1 pv same_control_trans [OF c1 c2] by simp
    qed
  next
    case (Some e)
    obtain t1 s3 where dn2: "Date_now w s2 = (t1, s3)" by (cases "Date_now w s2")
    have q3: "quiet s2 s3" using Date_now_quiet [OF dn2] .
    let ?s4 = "s3\<lparr>stats := (stats s3)\<lparr>sitesFailed := sitesFailed (stats s3) + 1\<rparr>\<rparr>"
    let ?s5 = "push_error ''visit'' (Some url) (message e) w ?s4"
    have res: "visitSite w url current totalSites s = emit (SiteFailed url (message e) (t1 - t0)) ?s5"
      using dn vt Some dn2 by (simp add: visitSite_def Let_def)
    have q5: "quiet ?s4 ?s5" by (rule push_error_quiet)
    from tr Some have t2: "emitted s2 = emitted ?s1 @ mid"
      "sitesSuccessful (stats s2) = sitesSuccessful (stats ?s1)"
      "sitesFailed (stats s2) = sitesFailed (stats ?s1)"
      by (auto simp: try_result_def)
    have c5: "same_control s ?s5" and e5: "emitted ?s5 = emitted s @ SiteStart url current totalSites # mid"
      and n5: "sitesVisited (stats ?s5) = sitesVisited (stats s) + 1"
        "sitesSuccessful (stats ?s5) = sitesSuccessful (stats s)"
        "sitesFailed (stats ?s5) = sitesFailed (stats s) + 1"
      using q5 q3 t2 e1 v1 v2 n1 c1 c2
      by (auto simp: quiet_def same_control_def site_counters_def)
    show ?thesis
      unfolding res
      apply (rule exI [of _ mid], rule exI [of _ "SiteFailed url (message e) (t1 - t0)"])
      using c5 e5 n5 pv by (simp add: emit_def same_control_def)
  qed
qed

section \<open>Properties of navigation with retry\<close>

lemma goto_loop_success:
  assumes "page attempt = Inr status" and "attempt \<le> maxRetries"
  shows "goto_loop page url maxRetries attempt lastError =
           (Inr status, [],
            (if status \<ge> 400 then [HttpError url status] else []) @ [Navigated url status attempt])"
  using assms by (simp add: goto_loop.simps [of page url maxRetries attempt lastError])

lemma goto_loop_retry:
  assumes "\<forall>a. a < k \<longrightarrow> page a = Inl (err a)"
    and "page k = Inr status" and "k \<le> maxRetries"
  shows "attempt \<le> k \<Longrightarrow>
         goto_loop page url maxRetries attempt lastError =
           (Inr status, map backoff [attempt..<k],
            (if status \<ge> 400 then [HttpError url status] else []) @ [Navigated url status k])"
proof (induction "k - attempt" arbitrary: attempt lastError)
  case 0
  then have "attempt = k" by simp
  then show ?case
    using goto_loop_success [of page k status maxRetries url lastError] assms(2) assms(3) by simp
next
  case (Suc n)
  then have lt: "attempt < k" by simp
  then have f: "page attempt = Inl (err attempt)" using assms(1) by blast
  have "n = k - (attempt + 1)" using Suc.hyps(2) by simp
  from Suc.hyps(1) [OF this, of "Some (err attempt)"] lt
  have rec: "goto_loop page url maxRetries (attempt + 1) (Some (err attempt)) =
           (Inr status, map backoff [attempt + 1..<k],
            (if status \<ge> 400 then [HttpError url status] else []) @ [Navigated url status k])"
    by simp
  have "[attempt..<k] = attempt # [attempt + 1..<k]"
    using lt by (simp add: upt_conv_Cons)
  then show ?case
    using f lt assms(3) rec
    by (simp add: goto_loop.simps [of page url maxRetries attempt lastError] backoff_def)
qed


lemma goto_loop_all_fail:
  assumes "\<forall>a. page a = Inl (err a)"
  shows "attempt \<le> maxRetries \<Longrightarrow>
         goto_loop page url maxRetries attempt lastError =
           (Inl (Some (err maxRetries)), map backoff [attempt..<maxRetries],
            [NavigationFailed url (Some (err maxRetries))])"
proof (induction "maxRetries - attempt" arbitrary: attempt lastError)
  case 0
  then have eq: "attempt = maxRetries" by simp
  have last: "goto_loop page url maxRetries (Suc maxRetries) (Some (err maxRetries)) =
      (Inl (Some (err maxRetries)), [], [NavigationFailed url (Some (err maxRetries))])"
    by (simp add: goto_loop.simps [of page url maxRetries "Suc maxRetries"])
  have f: "page maxRetries = Inl (err maxRetries)" using assms by blast
  show ?case
    unfolding eq using f last
    by (simp add: goto_loop.simps [of page url maxRetries maxRetries lastError])
next
  case (Suc n)
  then have lt: "attempt < maxRetries" by simp
  have "n = maxRetries - (attempt + 1)" using Suc.hyps(2) by simp
  from Suc.hyps(1) [OF this, of "Some (err attempt)"] lt
  have rec: "goto_loop page url maxRetries (attempt + 1) (Some (err attempt)) =
           (Inl (Some (err maxRetries)), map backoff [attempt + 1..<maxRetries],
            [NavigationFailed url (Some (err maxRetries))])"
    by simp
  have "[attempt..<maxRetries] = attempt # [attempt + 1..<maxRetries]"
    using lt by (simp add: upt_conv_Cons)
  moreover have "page attempt = Inl (err attempt)" using assms by blast
  ultimately show ?case
    using lt rec
    by (simp add: goto_loop.simps [of page url maxRetries attempt lastError] backoff_def)
qed

lemma default_backoffs: "map backoff [Suc 0..<3] = [1000, 2000]"
  by (simp add: upt_conv_Cons backoff_def numeral_3_eq_3)

lemma goto_default_all_fail:
  assumes "\<forall>a. page a = Inl (err a)"
  shows "goto (Some cfg) page \<lparr>page_open = True\<rparr> url \<lparr>retries = None\<rparr> =
           (Inl (Some (err 3)), [1000, 2000], [NavigationFailed url (Some (err 3))])"
  using goto_loop_all_fail [OF assms, of 1 3 url None]
  by (simp add: goto_def default_backoffs)





lemma navigate_all_fail:
  assumes "browser s = Some \<lparr>page_open = True\<rparr>" and "Config_get w = Some cfg"
    and "\<forall>a. page_goto w current a = Inl (err a)"
  shows "navigate w url current s =
           (Some (err 3),
            push_error ''navigation'' (Some url) (message (err 3)) w (sleep 2000 (sleep 1000 s)))"
  using assms(1,2) goto_default_all_fail [OF assms(3), of cfg url]
  by (simp add: navigate_def)



lemma visitSite_navigation_fails:
  assumes "browser s = Some \<lparr>page_open = True\<rparr>" and "Config_get w = Some cfg"
    and "\<forall>a. page_goto w current a = Inl (err a)"
  shows "visitSite w url current totalSites s =
           s\<lparr>stats := (stats s)\<lparr>sitesVisited := sitesVisited (stats s) + 1,
                                   sitesFailed := sitesFailed (stats s) + 1,
                                   errors := errors (stats s)
                                     @ [\<lparr>entry_type = ''navigation'', entry_url = Some url,
                                          entry_error = message (err 3),
                                          entry_time = clock w (clock_reads s + 1)\<rparr>,
                                        \<lparr>entry_type = ''visit'', entry_url = Some url,
                                          entry_error = message (err 3),
                                          entry_time = clock w (clock_reads s + 3)\<rparr>]\<rparr>,
              emitted := emitted s
                 @ [SiteStart url current totalSites,
                    SiteFailed url (message (err 3))
                      (clock w (clock_reads s + 2) - clock w (clock_reads s))],
              timers := timers s @ [1000, 2000],
              clock_reads := clock_reads s + 4\<rparr>"
proof -
  let ?s1 = "emit (SiteStart url current totalSites)
               ((s\<lparr>clock_reads := Suc (clock_reads s)\<rparr>)
                  \<lparr>stats := (stats s)\<lparr>sitesVisited := sitesVisited (stats s) + 1\<rparr>\<rparr>)"
  have b1: "browser ?s1 = Some \<lparr>page_open = True\<rparr>"
    using assms by (simp_all add: emit_def)
  have nav: "navigate w url current ?s1 =
           (Some (err 3),
            push_error ''navigation'' (Some url) (message (err 3)) w (sleep 2000 (sleep 1000 ?s1)))"
    by (rule navigate_all_fail [OF b1 assms(2) assms(3)])
  show ?thesis
    using nav
    by (simp add: visitSite_def Date_now_def visit_try_def Let_def emit_def push_error_def
        sleep_def eval_nat_numeral)
qed

section \<open>The outcome of a visit\<close>

lemma initialized_example:
  "initialized_session (example_world nav captcha) =
     \<lparr>browser = Some \<lparr>page_open = True\<rparr>, actions_set = True, state = STARTING,
      stats = initial_stats, shouldStop = False, isPaused = False, currentSite = None,
      siteQueue = [], emitted = [StateChange STARTING, Initialized], timers = [],
      clock_reads = 0, random_state = (), Sites_sites = Some example_sites\<rparr>"
  by (simp add: initialized_session_def initialize_def initialize_try_def SessionManager_new_def
      example_world_def emit_def Let_def)




section \<open>Properties of the loops over searches and sites\<close>

lemma calm_refl [simp]: "calm s s"
  by (simp add: calm_def)

lemma calm_trans: "calm a b \<Longrightarrow> calm b c \<Longrightarrow> calm a c"
  by (auto simp: calm_def intro: same_control_trans)

lemma quiet_calm: "quiet s s' \<Longrightarrow> calm s s'"
  by (simp add: quiet_def calm_def)

lemma waitBetweenSites_effect:
  "waitBetweenSites w s = (r, s') \<Longrightarrow> quiet s s' \<and> r \<noteq> Blocked \<and> (Config_get w \<noteq> None \<longrightarrow> (\<exists>d. r = Return d))"
  by (auto simp: waitBetweenSites_def quiet_def same_control_def site_counters_def sleep_def Let_def
      split: option.splits prod.splits)

lemma takeBreak_calm: "calm s (takeBreak w cfg s)"
proof -
  obtain d s1 where ri: "random_int (breakDuration_min cfg * 1000) (breakDuration_max cfg * 1000) w s = (d, s1)"
    by (cases "random_int (breakDuration_min cfg * 1000) (breakDuration_max cfg * 1000) w s")
  have "calm s s1" using random_int_quiet [OF ri] by (rule quiet_calm)
  moreover have "calm s1 (emit BreakEnd (sleep d (emit (BreakStart d) s1)))"
    by (simp add: calm_def emit_def sleep_def same_control_def site_counters_def)
  ultimately show ?thesis
    using ri by (auto simp: takeBreak_def intro: calm_trans)
qed

lemma elapsed_minutes_effect:
  "elapsed_minutes w s = (r, s')
   \<Longrightarrow> quiet s s' \<and> r \<noteq> Blocked \<and> (startTime (stats s) \<noteq> None \<longrightarrow> (\<exists>m. r = Return m))"
  by (auto simp: elapsed_minutes_def Date_now_def quiet_def same_control_def site_counters_def
      split: option.splits)

lemma break_check_effect:
  assumes "break_check w cfg s = (r, s')"
  shows "calm s s' \<and> r \<noteq> Blocked \<and> (startTime (stats s) \<noteq> None \<longrightarrow> r = Return ())"
proof (cases "session_breakInterval cfg > 0")
  case False
  with assms show ?thesis by (auto simp: break_check_def)
next
  case True
  obtain r1 s1 where em: "elapsed_minutes w s = (r1, s1)" by (cases "elapsed_minutes w s")
  note e = elapsed_minutes_effect [OF em]
  show ?thesis
  proof (cases r1)
    case (Return m)
    then show ?thesis
      using assms True em e takeBreak_calm [of s1 w cfg]
      by (auto simp: break_check_def Let_def split: if_splits intro: calm_trans quiet_calm)
  next
    case (Throw x)
    then show ?thesis
      using assms True em e by (auto simp: break_check_def intro: quiet_calm)
  next
    case Blocked
    then show ?thesis using e by simp
  qed
qed

lemma duration_check_effect:
  assumes "duration_check w cfg s = (r, s')"
  shows "quiet s s' \<and> r \<noteq> Blocked \<and> (startTime (stats s) \<noteq> None \<longrightarrow> (\<exists>b. r = Return b))
         \<and> (session_maxDuration cfg \<le> 0 \<longrightarrow> r = Return False)"
proof (cases "session_maxDuration cfg > 0")
  case False
  with assms show ?thesis by (auto simp: duration_check_def)
next
  case True
  obtain r1 s1 where em: "elapsed_minutes w s = (r1, s1)" by (cases "elapsed_minutes w s")
  note e = elapsed_minutes_effect [OF em]
  show ?thesis
    using assms True em e by (cases r1) (auto simp: duration_check_def)
qed


lemma counters_consistent_calm:
  "calm s s' \<Longrightarrow> counters_consistent (stats s') = counters_consistent (stats s)
                  \<and> sitesVisited (stats s') = sitesVisited (stats s)"
  by (auto simp: calm_def site_counters_def counters_consistent_def)

lemma visitSite_step:
  "same_control s (visitSite w url current totalSites s)
   \<and> sitesVisited (stats (visitSite w url current totalSites s)) = sitesVisited (stats s) + 1
   \<and> (counters_consistent (stats s)
        \<longrightarrow> counters_consistent (stats (visitSite w url current totalSites s)))"
  using visitSite_effect [of w url current totalSites s]
  by (auto simp: counters_consistent_def)

lemma visitSites_loop_effect:
  "visitSites_loop w cfg totalSites i sites s = (r, s')
   \<Longrightarrow> loop_effect w cfg (length sites) s r s'"
proof (induction sites arbitrary: i s)
  case Nil
  then show ?case by (auto simp: loop_effect_def)
next
  case (Cons site rest)
  show ?case
  proof (cases "shouldStop s \<or> isPaused s
      \<or> (session_maxPages cfg > 0 \<and> int (pagesViewed (stats s)) \<ge> session_maxPages cfg)")
    case True
    with Cons.prems show ?thesis
      by (auto simp: loop_effect_def split: if_splits)
  next
    case go: False
    obtain r1 s1 where dc: "duration_check w cfg s = (r1, s1)"
      by (cases "duration_check w cfg s")
    note d = duration_check_effect [OF dc]
    have q1: "quiet s s1" using d by simp
    show ?thesis
    proof (cases "r1 = Return False")
      case False
      then have "s' = s1" "r = (case r1 of Return b \<Rightarrow> Return () | Throw e \<Rightarrow> Throw e | Blocked \<Rightarrow> Blocked)"
        using Cons.prems go dc by (cases r1; auto)+
      then show ?thesis
        using d q1 False
        by (cases r1) (auto simp: loop_effect_def quiet_def site_counters_def
            counters_consistent_def same_control_def)
    next
      case limit_ok: True
      let ?s1' = "s1\<lparr>currentSite := Some site\<rparr>"
      have c1: "calm s ?s1'"
        using q1 by (simp add: quiet_def calm_def same_control_def site_counters_def)
      obtain r2 s2 where bc: "break_check w cfg ?s1' = (r2, s2)"
        by (cases "break_check w cfg ?s1'")
      note b = break_check_effect [OF bc]
      have c2: "calm s s2" using c1 b by (auto intro: calm_trans)
      show ?thesis
      proof (cases "r2 = Return ()")
        case False
        then have "s' = s2" "r = r2"
          using Cons.prems go dc limit_ok bc by (cases r2; auto)+
        then show ?thesis
          using b c1 c2 False counters_consistent_calm [OF c2]
          by (auto simp: loop_effect_def calm_def same_control_def)
      next
        case break_ok: True
        let ?s3 = "visitSite w site (i + 1) totalSites s2"
        note v = visitSite_step [of s2 w site "i + 1" totalSites]
        have sc3: "same_control s ?s3"
          using c2 v by (auto simp: calm_def intro: same_control_trans)
        have n3: "sitesVisited (stats ?s3) = sitesVisited (stats s) + 1"
          "counters_consistent (stats s) \<longrightarrow> counters_consistent (stats ?s3)"
          using v counters_consistent_calm [OF c2] by auto
        show ?thesis
        proof (cases "rest \<noteq> [] \<and> \<not> shouldStop ?s3")
          case False
          then have rec: "visitSites_loop w cfg totalSites (i + 1) rest ?s3 = (r, s')"
            using Cons.prems go dc limit_ok bc break_ok by (auto simp: Let_def)
          note ih = Cons.IH [OF rec]
          show ?thesis
            using ih sc3 n3 go
            by (auto simp: loop_effect_def same_control_def)
        next
          case wait: True
          obtain r4 s4 where wb: "waitBetweenSites w ?s3 = (r4, s4)"
            by (cases "waitBetweenSites w ?s3")
          note wq = waitBetweenSites_effect [OF wb]
          have q4: "quiet ?s3 s4" using wq by simp
          have sc4: "same_control s s4"
            using sc3 q4 by (auto simp: quiet_def intro: same_control_trans)
          have n4: "sitesVisited (stats s4) = sitesVisited (stats s) + 1"
            "counters_consistent (stats s) \<longrightarrow> counters_consistent (stats s4)"
            using n3 counters_consistent_calm [OF quiet_calm [OF q4]] by auto
          show ?thesis
          proof (cases r4)
            case (Return dl)
            then have rec: "visitSites_loop w cfg totalSites (i + 1) rest s4 = (r, s')"
              using Cons.prems go dc limit_ok bc break_ok wait wb by (auto simp: Let_def)
            note ih = Cons.IH [OF rec]
            show ?thesis
              using ih sc4 n4 go
              by (auto simp: loop_effect_def same_control_def)
          next
            case (Throw e)
            then have "s' = s4" "r = Throw e"
              using Cons.prems go dc limit_ok bc break_ok wait wb by (auto simp: Let_def)
            then show ?thesis
              using wq Throw sc4 n4
              by (auto simp: loop_effect_def)
          next
            case Blocked
            then show ?thesis using wq by simp
          qed
        qed
      qed
    qed
  qed
qed

lemma search_try_calm: "search_try w i notLast s = (r, s') \<Longrightarrow> calm s s'"
proof -
  assume a: "search_try w i notLast s = (r, s')"
  let ?s1 = "emit SearchPerformed
               (s\<lparr>stats := (stats s)\<lparr>searchesPerformed := searchesPerformed (stats s) + 1\<rparr>\<rparr>)"
  have c1: "calm s ?s1"
    by (simp add: calm_def emit_def same_control_def site_counters_def)
  have w1: "\<And>x y. waitBetweenSites w ?s1 = (x, y) \<Longrightarrow> calm s y"
    using waitBetweenSites_effect c1 by (blast intro: calm_trans quiet_calm)
  have w0: "\<And>x y. waitBetweenSites w s = (x, y) \<Longrightarrow> calm s y"
    using waitBetweenSites_effect by (blast intro: quiet_calm)
  show ?thesis
    using a c1 w1 w0
    by (auto simp: search_try_def Let_def split: if_splits sum.splits prod.splits outcome.splits)
qed

lemma performSearches_loop_effect:
  "performSearches_loop n w i s = (r, s')
   \<Longrightarrow> calm s s' \<and> (\<forall>e. r \<noteq> Throw e) \<and> (\<not> isPaused s \<longrightarrow> r = Return ())"
proof (induction n arbitrary: i s)
  case 0
  then show ?case by auto
next
  case (Suc n)
  show ?case
  proof (cases "shouldStop s \<or> isPaused s")
    case True
    with Suc.prems show ?thesis by (auto split: if_splits)
  next
    case False
    obtain r1 s1 where st: "search_try w i (n > 0) s = (r1, s1)"
      by (cases "search_try w i (n > 0) s")
    have c1: "calm s s1" using search_try_calm [OF st] .
    let ?s2 = "case r1 of None \<Rightarrow> s1 | Some e \<Rightarrow> push_error ''search'' None (message e) w s1"
    have pe: "\<And>e. calm s1 (push_error ''search'' None (message e) w s1)"
      by (rule quiet_calm) (rule push_error_quiet)
    have c2: "calm s ?s2"
      using c1 calm_trans [OF c1 pe] by (auto split: option.splits)
    have rec: "performSearches_loop n w (i + 1) ?s2 = (r, s')"
      using Suc.prems False st by (auto split: option.splits)
    from Suc.IH [OF rec] c2 False show ?thesis
      by (auto simp: calm_def same_control_def intro: calm_trans)
  qed
qed

lemma getStats_quiet: "getStats w s = (v, s') \<Longrightarrow> quiet s s'"
  by (auto simp: getStats_def Date_now_def quiet_def same_control_def site_counters_def)

lemma handleError_effect:
  "state (handleError w e s) = ERROR \<and> browser (handleError w e s) = browser s
   \<and> actions_set (handleError w e s) = actions_set s
   \<and> site_counters (handleError w e s) = site_counters s
   \<and> siteQueue (handleError w e s) = siteQueue s"
  by (simp add: handleError_def Date_now_def push_error_def emit_def Let_def site_counters_def)

text \<open>What a run of \<open>start_try\<close> and of \<open>start_body\<close> keeps.\<close>

lemma start_try_effect:
  assumes "start_try w cfg s = (r, s')" and "Config_get w = Some cfg"
  shows "browser s' = browser s \<and> actions_set s' = actions_set s
       \<and> siteQueue s' = siteQueue s
       \<and> (counters_consistent (stats s) \<longrightarrow> counters_consistent (stats s'))
       \<and> (\<not> isPaused s \<and> startTime (stats s) \<noteq> None \<longrightarrow> r = Return () \<and> state s' = STOPPED)
       \<and> (\<not> isPaused s \<and> \<not> shouldStop s \<and> startTime (stats s) \<noteq> None
           \<and> session_maxPages cfg \<le> 0 \<and> session_maxDuration cfg \<le> 0
           \<longrightarrow> sitesVisited (stats s') = sitesVisited (stats s) + length (siteQueue s))"
proof -
  let ?ps = "if behavior_searches cfg \<and> behavior_searchCount cfg > 0
             then performSearches w (behavior_searchCount cfg) s else (Return (), s)"
  obtain r1 s1 where ps: "?ps = (r1, s1)" by (cases ?ps)
  have p: "calm s s1 \<and> (\<forall>e. r1 \<noteq> Throw e) \<and> (\<not> isPaused s \<longrightarrow> r1 = Return ())"
    using ps performSearches_loop_effect [of "nat (behavior_searchCount cfg)" w 0 s r1 s1]
    by (auto simp: performSearches_def split: if_splits)
  then have c1: "calm s s1" by simp
  have k1: "counters_consistent (stats s1) = counters_consistent (stats s)"
    "sitesVisited (stats s1) = sitesVisited (stats s)"
    using counters_consistent_calm [OF c1] by simp_all
  have f1: "browser s1 = browser s" "actions_set s1 = actions_set s" "siteQueue s1 = siteQueue s"
    "isPaused s1 = isPaused s" "shouldStop s1 = shouldStop s"
    "startTime (stats s1) = startTime (stats s)"
    using c1 by (simp_all add: calm_def same_control_def)
  show ?thesis
  proof (cases r1)
    case (Throw e)
    with p show ?thesis by simp
  next
    case Blocked
    then have "s' = s1" "r = Blocked"
      using assms(1) ps by (auto simp: start_try_def)
    moreover have "isPaused s" using p Blocked by auto
    ultimately show ?thesis
      using k1 f1 by simp
  next
    case (Return u)
    obtain r2 s2 where vs: "visitSites w s1 = (r2, s2)" by (cases "visitSites w s1")
    have le: "loop_effect w cfg (length (siteQueue s1)) s1 r2 s2"
      using visitSites_loop_effect [of w cfg "length (siteQueue s1)" 0 "siteQueue s1" s1 r2 s2]
        vs assms(2) by (simp add: visitSites_def)
    have cfg: "Config_get w \<noteq> None" using assms(2) by simp
    have sc2: "same_control s1 s2" using le by (simp add: loop_effect_def)
    have f2: "browser s2 = browser s" "actions_set s2 = actions_set s" "siteQueue s2 = siteQueue s"
      using sc2 f1 by (simp_all add: same_control_def)
    have cc2: "counters_consistent (stats s) \<longrightarrow> counters_consistent (stats s2)"
      using le k1 by (simp add: loop_effect_def)
    have ret2: "\<not> isPaused s \<and> startTime (stats s) \<noteq> None \<longrightarrow> r2 = Return ()"
      using le cfg f1 by (simp add: loop_effect_def)
    have cnt2: "\<not> isPaused s \<and> \<not> shouldStop s \<and> startTime (stats s) \<noteq> None
           \<and> session_maxPages cfg \<le> 0 \<and> session_maxDuration cfg \<le> 0
           \<longrightarrow> sitesVisited (stats s2) = sitesVisited (stats s) + length (siteQueue s)"
      using le cfg f1 k1 by (simp add: loop_effect_def)
    show ?thesis
    proof (cases r2)
      case r2: (Return u')
      obtain t s3 where dn: "Date_now w s2 = (t, s3)" by (cases "Date_now w s2")
      let ?s5 = "emit (StateChange STOPPED)
                   (s3\<lparr>stats := (stats s3)\<lparr>endTime := Some t\<rparr>, state := STOPPED\<rparr>)"
      obtain v s6 where gs: "getStats w ?s5 = (v, s6)" by (cases "getStats w ?s5")
      have res: "r = Return ()" "s' = emit (Completed v) s6"
        using assms(1) ps Return vs r2 dn gs
        by (auto simp: start_try_def Let_def)
      have f3: "browser s3 = browser s2" "actions_set s3 = actions_set s2"
        "siteQueue s3 = siteQueue s2" "site_counters s3 = site_counters s2"
        using Date_now_quiet [OF dn] by (auto simp: quiet_def same_control_def)
      have f6: "browser s6 = browser ?s5" "actions_set s6 = actions_set ?s5"
        "siteQueue s6 = siteQueue ?s5" "site_counters s6 = site_counters ?s5"
        "state s6 = state ?s5"
        using getStats_quiet [OF gs] by (auto simp: quiet_def same_control_def)
      have fin: "browser s' = browser s2" "actions_set s' = actions_set s2"
        "siteQueue s' = siteQueue s2" "site_counters s' = site_counters s2" "state s' = STOPPED"
        using res f3 f6 by (simp_all add: emit_def site_counters_def)
      have n: "sitesVisited (stats s') = sitesVisited (stats s2)"
        "counters_consistent (stats s') = counters_consistent (stats s2)"
        using fin(4) by (simp_all add: site_counters_def counters_consistent_def)
      show ?thesis
        using fin(1,2,3,5) f2 cc2 cnt2 res(1) n by simp
    next
      case (Throw e)
      then have "s' = s2" "r = Throw e"
        using assms(1) ps Return vs by (auto simp: start_try_def)
      moreover have "isPaused s \<or> startTime (stats s) = None" using ret2 Throw by auto
      ultimately show ?thesis
        using f2 cc2 by auto
    next
      case Blocked
      then have "s' = s2" "r = Blocked"
        using assms(1) ps Return vs by (auto simp: start_try_def)
      moreover have "isPaused s \<or> startTime (stats s) = None" using ret2 Blocked by auto
      ultimately show ?thesis
        using f2 cc2 by auto
    qed
  qed
qed

section \<open>Properties of start()\<close>

lemma shuffle_loop_length: "length (fst (shuffle_loop i nxt xs g)) = length xs"
  by (induction i arbitrary: xs g) (auto simp: Let_def split: prod.splits)

lemma shuffle_empty:
  assumes "shuffle sites nxt g = ([], g')"
  shows "sites = [] \<and> g' = g"
proof -
  have "length (fst (shuffle sites nxt g)) = length sites"
    unfolding shuffle_def by (rule shuffle_loop_length)
  with assms have e: "sites = []" by simp
  with assms show ?thesis by (simp add: shuffle_def)
qed

lemma shuffle_and_limit_empty:
  assumes "shuffle_and_limit options nxt g sites = ([], g')"
  shows "g' = g"
proof -
  obtain shuffled g1 where sh:
    "(if shuffle_option options \<noteq> Some False then shuffle sites nxt g else (sites, g)) = (shuffled, g1)"
    by (cases "if shuffle_option options \<noteq> Some False then shuffle sites nxt g else (sites, g)")
  have g1: "g' = g1" and e: "shuffled = []"
    using assms unfolding shuffle_and_limit_def sh
    by (auto split: option.splits if_splits)
  show ?thesis
  proof (cases "shuffle_option options \<noteq> Some False")
    case True
    with sh e have "shuffle sites nxt g = ([], g1)" by simp
    from shuffle_empty [OF this] g1 show ?thesis by simp
  next
    case False
    with sh g1 show ?thesis by simp
  qed
qed

lemma getSites_empty:
  "getSites sites_field cats options compile nxt g = Inr ([], g') \<Longrightarrow> g' = g"
  by (auto simp: getSites_def split: option.splits sum.splits dest: shuffle_and_limit_empty)

lemma start_body_empty:
  assumes "Config_get w = Some cfg"
    and "getSites (Sites_sites s) (sites_categories cfg) (start_options cfg)
           (new_RegExp w) (Math_random w) (random_state s) = Inr ([], g')"
  shows "start_body w s = (Throw empty_queue_error, s\<lparr>siteQueue := []\<rparr>)"
  using assms getSites_empty [OF assms(2)]
  by (simp add: start_body_def)

lemma start_guard:
  "(state s \<noteq> STARTING \<and> state s \<noteq> IDLE
      \<longrightarrow> start_with ini w s
            = (Throw (Error (''Cannot start session in state: '' @ SessionState_string (state s))), s))
   \<and> (state s = STARTING \<or> state s = IDLE \<longrightarrow> start_with ini w s = start_body w s)"
  by (auto simp: start_with_def)

lemma begin_run_effect:
  "siteQueue (begin_run w s) = siteQueue s \<and> isPaused (begin_run w s) = isPaused s
   \<and> shouldStop (begin_run w s) = shouldStop s \<and> startTime (stats (begin_run w s)) \<noteq> None
   \<and> site_counters (begin_run w s) = site_counters s
   \<and> browser (begin_run w s) = browser s \<and> actions_set (begin_run w s) = actions_set s"
  by (simp add: begin_run_def Date_now_def emit_def site_counters_def)

lemma start_body_running:
  assumes "Config_get w = Some cfg"
    and "getSites (Sites_sites s) (sites_categories cfg) (start_options cfg)
           (new_RegExp w) (Math_random w) (random_state s) = Inr (queue, g')"
    and "queue \<noteq> []"
  shows "start_body w s =
           (case start_try w cfg (begin_run w (s\<lparr>siteQueue := queue, random_state := g'\<rparr>)) of
              (Throw e, s5) \<Rightarrow> (Throw e, handleError w e s5)
            | (Blocked, s5) \<Rightarrow> (Blocked, s5)
            | (Return u, s5) \<Rightarrow> (Return (), s5))"
  using assms by (simp add: start_body_def Let_def)

lemma start_body_handles:
  "browser (snd (start_body w s)) = browser s \<and> actions_set (snd (start_body w s)) = actions_set s"
proof (cases "Config_get w")
  case None
  then show ?thesis by (simp add: start_body_def)
next
  case (Some cfg)
  show ?thesis
  proof (cases "getSites (Sites_sites s) (sites_categories cfg) (start_options cfg)
           (new_RegExp w) (Math_random w) (random_state s)")
    case (Inl e)
    then show ?thesis using Some by (simp add: start_body_def)
  next
    case (Inr p)
    obtain queue g' where p: "p = (queue, g')" by (cases p)
    show ?thesis
    proof (cases "queue = []")
      case True
      then show ?thesis
        using start_body_empty [OF Some, of s g'] Inr p by simp
    next
      case False
      let ?s4 = "begin_run w (s\<lparr>siteQueue := queue, random_state := g'\<rparr>)"
      have sb: "start_body w s =
           (case start_try w cfg ?s4 of
              (Throw e, s5) \<Rightarrow> (Throw e, handleError w e s5)
            | (Blocked, s5) \<Rightarrow> (Blocked, s5)
            | (Return u, s5) \<Rightarrow> (Return (), s5))"
        using start_body_running [OF Some _ False, of s g'] Inr p by simp
      have h4: "browser ?s4 = browser s" "actions_set ?s4 = actions_set s"
        using begin_run_effect [of w "s\<lparr>siteQueue := queue, random_state := g'\<rparr>"] by simp_all
      obtain r5 s5 where st: "start_try w cfg ?s4 = (r5, s5)" by (cases "start_try w cfg ?s4")
      from start_try_effect [OF st Some] have h5: "browser s5 = browser ?s4" "actions_set s5 = actions_set ?s4"
        by simp_all
      show ?thesis
        unfolding sb st using h4 h5 handleError_effect [of w _ s5]
        by (cases r5) simp_all
    qed
  qed
qed

lemma start_body_counters_consistent:
  assumes "counters_consistent (stats s)"
  shows "counters_consistent (stats (snd (start_body w s)))"
proof (cases "Config_get w")
  case None
  then show ?thesis using assms by (simp add: start_body_def)
next
  case (Some cfg)
  show ?thesis
  proof (cases "getSites (Sites_sites s) (sites_categories cfg) (start_options cfg)
           (new_RegExp w) (Math_random w) (random_state s)")
    case (Inl e)
    then show ?thesis using Some assms by (simp add: start_body_def)
  next
    case (Inr p)
    obtain queue g' where p: "p = (queue, g')" by (cases p)
    show ?thesis
    proof (cases "queue = []")
      case True
      then show ?thesis
        using start_body_empty [OF Some, of s g'] Inr p assms by simp
    next
      case False
      let ?s4 = "begin_run w (s\<lparr>siteQueue := queue, random_state := g'\<rparr>)"
      have sb: "start_body w s =
           (case start_try w cfg ?s4 of
              (Throw e, s5) \<Rightarrow> (Throw e, handleError w e s5)
            | (Blocked, s5) \<Rightarrow> (Blocked, s5)
            | (Return u, s5) \<Rightarrow> (Return (), s5))"
        using start_body_running [OF Some _ False, of s g'] Inr p by simp
      have c4: "counters_consistent (stats ?s4)"
        using begin_run_effect [of w "s\<lparr>siteQueue := queue, random_state := g'\<rparr>"] assms
        by (simp add: site_counters_def counters_consistent_def)
      obtain r5 s5 where st: "start_try w cfg ?s4 = (r5, s5)" by (cases "start_try w cfg ?s4")
      from start_try_effect [OF st Some] c4 have c5: "counters_consistent (stats s5)"
        by simp
      have c6: "\<And>e. counters_consistent (stats (handleError w e s5))"
        using c5 handleError_effect [of w _ s5]
        by (simp add: site_counters_def counters_consistent_def)
      show ?thesis
        unfolding sb st using c5 c6 by (cases r5) simp_all
    qed
  qed
qed

lemma start_counters_consistent:
  "counters_consistent (stats s) \<longrightarrow> counters_consistent (stats (snd (start w s)))"
  using start_guard [of s initialize w] start_body_counters_consistent [of s w]
  by (auto simp: start_def)

text \<open>
  C9. Each call of \<open>_visitSite\<close> adds 1 to \<open>sitesVisited\<close> and 1 to exactly one of
  \<open>sitesSuccessful\<close> and \<open>sitesFailed\<close>: to \<open>sitesSuccessful\<close> when the visit ends with
  \<open>siteComplete\<close> (a completed stay), to \<open>sitesFailed\<close> when it ends with \<open>siteFailed\<close>
  (a thrown error) or with \<open>captchaDetected\<close>. So a visit keeps
  \<open>sitesVisited = sitesSuccessful + sitesFailed\<close>, which holds of a new session and is
  kept by a whole run of \<open>start()\<close>.
\<close>

theorem visitSite_counts_once:
  "sitesVisited (stats (visitSite w url current totalSites s)) = sitesVisited (stats s) + 1
   \<and> ((sitesSuccessful (stats (visitSite w url current totalSites s))
          = sitesSuccessful (stats s) + 1
        \<and> sitesFailed (stats (visitSite w url current totalSites s)) = sitesFailed (stats s)
        \<and> is_siteComplete (last (emitted (visitSite w url current totalSites s))))
      \<or> (sitesSuccessful (stats (visitSite w url current totalSites s))
          = sitesSuccessful (stats s)
        \<and> sitesFailed (stats (visitSite w url current totalSites s))
          = sitesFailed (stats s) + 1
        \<and> (is_siteFailed (last (emitted (visitSite w url current totalSites s)))
           \<or> is_captchaDetected (last (emitted (visitSite w url current totalSites s))))))
   \<and> (counters_consistent (stats s)
        \<longrightarrow> counters_consistent (stats (visitSite w url current totalSites s)))
   \<and> counters_consistent (stats (SessionManager_new g sites))
   \<and> (counters_consistent (stats s) \<longrightarrow> counters_consistent (stats (snd (start w s))))"
proof -
  from visitSite_effect [of w url current totalSites s] obtain mid final where
    e: "emitted (visitSite w url current totalSites s)
          = emitted s @ SiteStart url current totalSites # mid @ [final]"
    and d: "(is_siteComplete final
          \<and> sitesSuccessful (stats (visitSite w url current totalSites s))
              = sitesSuccessful (stats s) + 1
          \<and> sitesFailed (stats (visitSite w url current totalSites s)) = sitesFailed (stats s))
        \<or> ((is_siteFailed final \<or> final = CaptchaDetected url)
          \<and> sitesSuccessful (stats (visitSite w url current totalSites s))
              = sitesSuccessful (stats s)
          \<and> sitesFailed (stats (visitSite w url current totalSites s))
              = sitesFailed (stats s) + 1)"
    and v: "sitesVisited (stats (visitSite w url current totalSites s)) = sitesVisited (stats s) + 1"
    by blast
  have l: "last (emitted (visitSite w url current totalSites s)) = final"
    unfolding e by simp
  have new: "counters_consistent (stats (SessionManager_new g sites))
   \<and> (counters_consistent (stats s) \<longrightarrow> counters_consistent (stats (snd (start w s))))"
    using start_counters_consistent [of s w]
    by (simp add: counters_consistent_def SessionManager_new_def initial_stats_def)
  from d show ?thesis
  proof
    assume "is_siteComplete final
          \<and> sitesSuccessful (stats (visitSite w url current totalSites s))
              = sitesSuccessful (stats s) + 1
          \<and> sitesFailed (stats (visitSite w url current totalSites s)) = sitesFailed (stats s)"
    then show ?thesis
      using v l new by (simp add: counters_consistent_def)
  next
    assume a: "(is_siteFailed final \<or> final = CaptchaDetected url)
          \<and> sitesSuccessful (stats (visitSite w url current totalSites s))
              = sitesSuccessful (stats s)
          \<and> sitesFailed (stats (visitSite w url current totalSites s))
              = sitesFailed (stats s) + 1"
    then have "is_siteFailed final \<or> is_captchaDetected final" by auto
    with a show ?thesis
      using v l new by (simp add: counters_consistent_def)
  qed
qed

theorem visitSite_counts_once_witness:
  "counters_consistent
     (stats (visitSite (example_world (\<lambda>k a. Inr 200) (\<lambda>k. False)) ''https://a.example'' 1 2
               (initialized_session (example_world (\<lambda>k a. Inr 200) (\<lambda>k. False)))))"
proof -
  have "counters_consistent
          (stats (initialized_session (example_world (\<lambda>k a. Inr 200) (\<lambda>k. False))))"
    by (simp add: initialized_example counters_consistent_def initial_stats_def)
  moreover have "counters_consistent
          (stats (initialized_session (example_world (\<lambda>k a. Inr 200) (\<lambda>k. False))))
      \<longrightarrow> counters_consistent
          (stats (visitSite (example_world (\<lambda>k a. Inr 200) (\<lambda>k. False)) ''https://a.example'' 1 2
               (initialized_session (example_world (\<lambda>k a. Inr 200) (\<lambda>k. False)))))"
    using visitSite_counts_once [of "example_world (\<lambda>k a. Inr 200) (\<lambda>k. False)"
        "''https://a.example''" 1 2
        "initialized_session (example_world (\<lambda>k a. Inr 200) (\<lambda>k. False))" "()" None]
    by (elim conjE) assumption
  ultimately show ?thesis by (rule rev_mp)
qed



text \<open>
  C10. The call of \<open>initialize()\<close> in \<open>start()\<close> is unreachable: the result of
  \<open>start()\<close> is the same whatever function stands in its place. \<open>start()\<close> throws when
  the state is neither \<open>idle\<close> nor \<open>starting\<close>, leaving the session as it is, and otherwise
  goes on to build the queue without initializing. So after \<open>start()\<close> on a new session
  the browser and the actions handler are still unset.
\<close>

theorem start_never_initializes:
  "start_with ini w s = start_with ini' w s
   \<and> (state s \<noteq> STARTING \<and> state s \<noteq> IDLE
        \<longrightarrow> start w s
            = (Throw (Error (''Cannot start session in state: '' @ SessionState_string (state s))), s))
   \<and> (state s = STARTING \<or> state s = IDLE \<longrightarrow> start w s = start_body w s)
   \<and> browser (snd (start w (SessionManager_new g sites))) = None
   \<and> \<not> actions_set (snd (start w (SessionManager_new g sites)))"
proof -
  have a: "start_with ini w s = start_with ini' w s"
    by (simp add: start_with_def)
  have new: "start w (SessionManager_new g sites) = start_body w (SessionManager_new g sites)"
    using start_guard [of "SessionManager_new g sites" initialize w]
    by (simp add: start_def SessionManager_new_def)
  have b: "browser (snd (start w (SessionManager_new g sites))) = None
      \<and> \<not> actions_set (snd (start w (SessionManager_new g sites)))"
    unfolding new using start_body_handles [of w "SessionManager_new g sites"]
    by (simp add: SessionManager_new_def)
  show ?thesis
    using a b start_guard [of s initialize w] by (simp add: start_def)
qed

theorem start_never_initializes_witness:
  "start (example_world (\<lambda>k a. Inr 200) (\<lambda>k. False)) ((SessionManager_new () None)\<lparr>state := RUNNING\<rparr>)
     = (Throw (Error ''Cannot start session in state: running''),
        (SessionManager_new () None)\<lparr>state := RUNNING\<rparr>)
   \<and> start (example_world (\<lambda>k a. Inr 200) (\<lambda>k. False)) (SessionManager_new () None)
     = start_body (example_world (\<lambda>k a. Inr 200) (\<lambda>k. False)) (SessionManager_new () None)"
proof -
  let ?w = "example_world (\<lambda>k a. Inr 200) (\<lambda>k. False)"
  have "state ((SessionManager_new () None)\<lparr>state := RUNNING\<rparr>) = RUNNING" by simp
  then have 1: "start ?w ((SessionManager_new () None)\<lparr>state := RUNNING\<rparr>)
     = (Throw (Error ''Cannot start session in state: running''),
        (SessionManager_new () None)\<lparr>state := RUNNING\<rparr>)"
    using start_never_initializes [of initialize ?w "(SessionManager_new () None)\<lparr>state := RUNNING\<rparr>"
        initialize "()" None]
    by simp
  have "state (SessionManager_new () None) = IDLE" by (simp add: SessionManager_new_def)
  then have 2: "start ?w (SessionManager_new () None) = start_body ?w (SessionManager_new () None)"
    using start_never_initializes [of initialize ?w "SessionManager_new () None" initialize "()" None]
    by simp
  from 1 2 show ?thesis by simp
qed

text \<open>
  C2. A navigation whose attempts throw is retried up to 3 attempts, sleeping
  \<open>min(1000 * 2^(attempt-1), 10000)\<close> milliseconds after each failed attempt but the
  last. When all of them throw, the visit counts a failure, records the error and emits
  \<open>siteFailed\<close>, without touching the state or the stop flag of the session. Whatever the
  navigations do, a session that is started with a loaded configuration and a non-empty
  queue, and is not paused, returns from \<open>start()\<close> in state \<open>stopped\<close>, and with no stop
  request and no page or duration limit it has visited every site of the queue.
\<close>

theorem navigation_failure_not_fatal:
  assumes "state s = IDLE \<or> state s = STARTING"
    and "Config_get w = Some cfg"
    and "getSites (Sites_sites s) (sites_categories cfg) (start_options cfg)
           (new_RegExp w) (Math_random w) (random_state s) = Inr (queue, g')"
    and "queue \<noteq> []"
    and "\<not> isPaused s"
  shows "((\<forall>a. page a = Inl (err a))
          \<longrightarrow> goto (Some cfg) page \<lparr>page_open = True\<rparr> url \<lparr>retries = None\<rparr>
              = (Inl (Some (err 3)), [backoff 1, backoff 2],
                 [NavigationFailed url (Some (err 3))]))
       \<and> ((\<forall>a. a < j \<longrightarrow> page a = Inl (err a)) \<and> page j = Inr status \<and> 1 \<le> j \<and> j \<le> 3
          \<longrightarrow> fst (goto (Some cfg) page \<lparr>page_open = True\<rparr> url \<lparr>retries = None\<rparr>) = Inr status
            \<and> fst (snd (goto (Some cfg) page \<lparr>page_open = True\<rparr> url \<lparr>retries = None\<rparr>))
                = map backoff [1..<j])
       \<and> (browser v = Some \<lparr>page_open = True\<rparr> \<and> (\<forall>a. page_goto w k a = Inl (err a))
          \<longrightarrow> sitesFailed (stats (visitSite w url k n v)) = sitesFailed (stats v) + 1
            \<and> sitesSuccessful (stats (visitSite w url k n v)) = sitesSuccessful (stats v)
            \<and> visit_events w url k n v
                = [SiteStart url k n,
                   SiteFailed url (message (err 3))
                     (clock w (clock_reads v + 2) - clock w (clock_reads v))]
            \<and> timers (visitSite w url k n v) = timers v @ [1000, 2000]
            \<and> state (visitSite w url k n v) = state v
            \<and> shouldStop (visitSite w url k n v) = shouldStop v)
       \<and> fst (start w s) = Return ()
       \<and> state (snd (start w s)) = STOPPED
       \<and> (\<not> shouldStop s \<and> session_maxPages cfg \<le> 0 \<and> session_maxDuration cfg \<le> 0
          \<longrightarrow> sitesVisited (stats (snd (start w s))) = sitesVisited (stats s) + length queue)"
proof -
  have b12: "backoff 1 = 1000" "backoff 2 = 2000"
    by (simp_all add: backoff_def)
  have A: "(\<forall>a. page a = Inl (err a))
          \<longrightarrow> goto (Some cfg) page \<lparr>page_open = True\<rparr> url \<lparr>retries = None\<rparr>
              = (Inl (Some (err 3)), [backoff 1, backoff 2],
                 [NavigationFailed url (Some (err 3))])"
    using goto_default_all_fail [of page err cfg url] b12 by simp
  have A2: "(\<forall>a. a < j \<longrightarrow> page a = Inl (err a)) \<and> page j = Inr status \<and> 1 \<le> j \<and> j \<le> 3
          \<longrightarrow> fst (goto (Some cfg) page \<lparr>page_open = True\<rparr> url \<lparr>retries = None\<rparr>) = Inr status
            \<and> fst (snd (goto (Some cfg) page \<lparr>page_open = True\<rparr> url \<lparr>retries = None\<rparr>))
                = map backoff [1..<j]"
  proof
    assume h: "(\<forall>a. a < j \<longrightarrow> page a = Inl (err a)) \<and> page j = Inr status \<and> 1 \<le> j \<and> j \<le> 3"
    then have "goto_loop page url 3 1 None =
           (Inr status, map backoff [1..<j],
            (if status \<ge> 400 then [HttpError url status] else []) @ [Navigated url status j])"
      using goto_loop_retry [of j page err status 3 1 url None] by blast
    then show "fst (goto (Some cfg) page \<lparr>page_open = True\<rparr> url \<lparr>retries = None\<rparr>) = Inr status
            \<and> fst (snd (goto (Some cfg) page \<lparr>page_open = True\<rparr> url \<lparr>retries = None\<rparr>))
                = map backoff [1..<j]"
      by (simp add: goto_def)
  qed
  have B: "browser v = Some \<lparr>page_open = True\<rparr> \<and> (\<forall>a. page_goto w k a = Inl (err a))
          \<longrightarrow> sitesFailed (stats (visitSite w url k n v)) = sitesFailed (stats v) + 1
            \<and> sitesSuccessful (stats (visitSite w url k n v)) = sitesSuccessful (stats v)
            \<and> visit_events w url k n v
                = [SiteStart url k n,
                   SiteFailed url (message (err 3))
                     (clock w (clock_reads v + 2) - clock w (clock_reads v))]
            \<and> timers (visitSite w url k n v) = timers v @ [1000, 2000]
            \<and> state (visitSite w url k n v) = state v
            \<and> shouldStop (visitSite w url k n v) = shouldStop v"
  proof
    assume h: "browser v = Some \<lparr>page_open = True\<rparr> \<and> (\<forall>a. page_goto w k a = Inl (err a))"
    note r = visitSite_navigation_fails [of v w cfg k err url n]
    show "sitesFailed (stats (visitSite w url k n v)) = sitesFailed (stats v) + 1
            \<and> sitesSuccessful (stats (visitSite w url k n v)) = sitesSuccessful (stats v)
            \<and> visit_events w url k n v
                = [SiteStart url k n,
                   SiteFailed url (message (err 3))
                     (clock w (clock_reads v + 2) - clock w (clock_reads v))]
            \<and> timers (visitSite w url k n v) = timers v @ [1000, 2000]
            \<and> state (visitSite w url k n v) = state v
            \<and> shouldStop (visitSite w url k n v) = shouldStop v"
      unfolding visit_events_def using r h assms(2) by simp
  qed
  have st: "start w s = start_body w s"
    using assms(1) start_guard [of s initialize w] by (auto simp: start_def)
  let ?s4 = "begin_run w (s\<lparr>siteQueue := queue, random_state := g'\<rparr>)"
  note sb = start_body_running [OF assms(2) assms(3) assms(4)]
  note br = begin_run_effect [of w "s\<lparr>siteQueue := queue, random_state := g'\<rparr>"]
  obtain r5 s5 where t: "start_try w cfg ?s4 = (r5, s5)" by (cases "start_try w cfg ?s4")
  note te = start_try_effect [OF t assms(2)]
  have p4: "\<not> isPaused ?s4" "startTime (stats ?s4) \<noteq> None" "siteQueue ?s4 = queue"
    "shouldStop ?s4 = shouldStop s" "sitesVisited (stats ?s4) = sitesVisited (stats s)"
    using br assms(5) by (simp_all add: site_counters_def)
  have r5: "r5 = Return ()" "state s5 = STOPPED"
    using te p4 by simp_all
  have res: "start w s = (Return (), s5)"
    unfolding st sb t using r5 by simp
  have C: "\<not> shouldStop s \<and> session_maxPages cfg \<le> 0 \<and> session_maxDuration cfg \<le> 0
          \<longrightarrow> sitesVisited (stats s5) = sitesVisited (stats s) + length queue"
    using te p4 by simp
  show ?thesis
    unfolding res using A A2 B C r5 by simp
qed

theorem navigation_failure_not_fatal_witness:
  "fst (start (example_world (\<lambda>k a. if k = 1 then Inl (Error ''net::ERR_CONNECTION_REFUSED'')
                                     else Inr 200) (\<lambda>k. False))
         (initialized_session
            (example_world (\<lambda>k a. if k = 1 then Inl (Error ''net::ERR_CONNECTION_REFUSED'')
                                   else Inr 200) (\<lambda>k. False)))) = Return ()
   \<and> state (snd (start (example_world (\<lambda>k a. if k = 1 then Inl (Error ''net::ERR_CONNECTION_REFUSED'')
                                     else Inr 200) (\<lambda>k. False))
         (initialized_session
            (example_world (\<lambda>k a. if k = 1 then Inl (Error ''net::ERR_CONNECTION_REFUSED'')
                                   else Inr 200) (\<lambda>k. False))))) = STOPPED
   \<and> sitesFailed (stats (snd (start (example_world (\<lambda>k a. if k = 1 then Inl (Error ''net::ERR_CONNECTION_REFUSED'')
                                     else Inr 200) (\<lambda>k. False))
         (initialized_session
            (example_world (\<lambda>k a. if k = 1 then Inl (Error ''net::ERR_CONNECTION_REFUSED'')
                                   else Inr 200) (\<lambda>k. False)))))) = 1
   \<and> sitesSuccessful (stats (snd (start (example_world (\<lambda>k a. if k = 1 then Inl (Error ''net::ERR_CONNECTION_REFUSED'')
                                     else Inr 200) (\<lambda>k. False))
         (initialized_session
            (example_world (\<lambda>k a. if k = 1 then Inl (Error ''net::ERR_CONNECTION_REFUSED'')
                                   else Inr 200) (\<lambda>k. False)))))) = 1"
proof -
  let ?w = "example_world (\<lambda>k a. if k = 1 then Inl (Error ''net::ERR_CONNECTION_REFUSED'')
                                     else Inr 200) (\<lambda>k. False)"
  let ?s = "initialized_session ?w"
  have a: "state ?s = IDLE \<or> state ?s = STARTING"
    by (simp add: initialized_example)
  have b: "Config_get ?w = Some example_config"
    by (simp add: example_world_def)
  have c: "getSites (Sites_sites ?s) (sites_categories example_config) (start_options example_config)
           (new_RegExp ?w) (Math_random ?w) (random_state ?s)
           = Inr ([''https://a.example'', ''https://b.example''], ())"
    by code_simp
  have d: "[''https://a.example'', ''https://b.example''] \<noteq> []" by simp
  have e: "\<not> isPaused ?s" by (simp add: initialized_example)
  have 1: "fst (start ?w ?s) = Return () \<and> state (snd (start ?w ?s)) = STOPPED"
    using navigation_failure_not_fatal [OF a b c d e] by simp
  have 2: "sitesFailed (stats (snd (start ?w ?s))) = 1"
    by code_simp
  have 3: "sitesSuccessful (stats (snd (start ?w ?s))) = 1"
    by code_simp
  from 1 2 3 show ?thesis by simp
qed

section \<open>Properties of the command handler\<close>

text \<open>
  C8 (as amended). With no session attached, each of the commands \<open>start\<close>, \<open>stop\<close>,
  \<open>pause\<close>, \<open>resume\<close>, \<open>stats\<close>, \<open>screenshot\<close> and \<open>goto\<close> is answered by one response
  message with \<open>success: false\<close>, \<open>data: null\<close> and the error ``No session attached'',
  and changes nothing. \<open>status\<close> and \<open>list_clients\<close> are answered with \<open>success: true\<close>
  whether or not a session is attached, and so is \<open>config\<close> whenever the configuration
  is loaded.
\<close>

theorem handleCommand_without_session:
  "(session h = None
      \<and> command \<in> set [''start'', ''stop'', ''pause'', ''resume'', ''stats'', ''screenshot'', ''goto'']
     \<longrightarrow> handleCommand w h command url rid
         = Some (\<lparr>response_type = ''response'', response_command = command, requestId = rid,
                  success = False, response_data = NullData,
                  response_error = Some ''No session attached''\<rparr>, h, False))
   \<and> handleCommand w h ''status'' url rid
       = Some (\<lparr>response_type = ''response'', response_command = ''status'', requestId = rid,
                success = True,
                response_data = StatusData (case session h of
                                              None \<Rightarrow> ''no-session''
                                            | Some s \<Rightarrow> SessionState_string (state s))
                                  (length (clients h)) (process_uptime w),
                response_error = None\<rparr>, h, False)
   \<and> handleCommand w h ''list_clients'' url rid
       = Some (\<lparr>response_type = ''response'', response_command = ''list_clients'',
                requestId = rid, success = True, response_data = ClientsData (clients h),
                response_error = None\<rparr>, h, False)
   \<and> (Config_get w = Some cfg
     \<longrightarrow> handleCommand w h ''config'' url rid
         = Some (\<lparr>response_type = ''response'', response_command = ''config'', requestId = rid,
                  success = True, response_data = ConfigData cfg, response_error = None\<rparr>,
                 h, False))"
  by (auto simp: handleCommand_def command_switch_def no_session_error_def)

theorem handleCommand_without_session_witness:
  "handleCommand (example_world (\<lambda>k a. Inr 200) (\<lambda>k. False)) \<lparr>session = None, clients = []\<rparr>
     ''goto'' (Some ''https://a.example'') (Some ''42'')
   = Some (\<lparr>response_type = ''response'', response_command = ''goto'', requestId = Some ''42'',
            success = False, response_data = NullData,
            response_error = Some ''No session attached''\<rparr>,
           \<lparr>session = None, clients = []\<rparr>, False)
   \<and> handleCommand (example_world (\<lambda>k a. Inr 200) (\<lambda>k. False)) \<lparr>session = None, clients = []\<rparr>
     ''config'' None (Some ''43'')
   = Some (\<lparr>response_type = ''response'', response_command = ''config'', requestId = Some ''43'',
            success = True, response_data = ConfigData example_config, response_error = None\<rparr>,
           \<lparr>session = None, clients = []\<rparr>, False)"
proof -
  let ?w = "example_world (\<lambda>k a. Inr 200) (\<lambda>k. False)"
  let ?h = "\<lparr>session = None, clients = []\<rparr> :: unit WebSocketHandler"
  have a: "session ?h = None
      \<and> ''goto'' \<in> set [''start'', ''stop'', ''pause'', ''resume'', ''stats'', ''screenshot'', ''goto'']"
    by simp
  have b: "Config_get ?w = Some example_config"
    by (simp add: example_world_def)
  have 1: "handleCommand ?w ?h ''goto'' (Some ''https://a.example'') (Some ''42'')
   = Some (\<lparr>response_type = ''response'', response_command = ''goto'', requestId = Some ''42'',
            success = False, response_data = NullData,
            response_error = Some ''No session attached''\<rparr>, ?h, False)"
    using a handleCommand_without_session [of ?h "''goto''" ?w "Some ''https://a.example''" "Some ''42''"
        example_config]
    by blast
  have 2: "handleCommand ?w ?h ''config'' None (Some ''43'')
   = Some (\<lparr>response_type = ''response'', response_command = ''config'', requestId = Some ''43'',
            success = True, response_data = ConfigData example_config, response_error = None\<rparr>,
           ?h, False)"
    using b handleCommand_without_session [of ?h "''config''" ?w None "Some ''43''" example_config]
    by blast
  from 1 2 show ?thesis by simp
qed

text \<open>
  C8 as stated fails for \<open>config\<close> when the configuration is not loaded: \<open>Config.get()\<close>
  throws, and the response carries \<open>success: false\<close> and the error of \<open>Config.get()\<close>.
\<close>

theorem handleCommand_config_counterexample:
  "handleCommand ((example_world (\<lambda>k a. Inr 200) (\<lambda>k. False))\<lparr>Config_get := None\<rparr>)
     \<lparr>session = None, clients = []\<rparr> ''config'' None None
   = Some (\<lparr>response_type = ''response'', response_command = ''config'', requestId = None,
            success = False, response_data = NullData,
            response_error = Some ''Configuration not loaded. Call await Config.load() first.''\<rparr>,
           \<lparr>session = None, clients = []\<rparr>, False)"
  by (simp add: handleCommand_def command_switch_def config_not_loaded_def example_world_def)

end
